theory Spec2Isabelle
  imports Complex_Main "HOL-Library.Multiset" "HOL-Library.Word" "HOL-Library.Signed_Division"
begin

section \<open>The partitioning engine (package split)\<close>

subsection \<open>sanitizeFilename\<close>

text \<open>
  Go strings are byte sequences and \<^typ>\<open>string\<close> is a list of bytes. Every
  character of the class \<^verbatim>\<open>[<>:"/\\|?*\x00-\x1F]\<close> is an ASCII byte, and no
  byte of a multi-byte UTF-8 sequence lies in it, so replacing byte by byte is what
  \<^verbatim>\<open>ReplaceAllString\<close> does.
\<close>

definition illegal :: "char \<Rightarrow> bool" where
  "illegal c \<longleftrightarrow>
     c = CHR ''<'' \<or> c = CHR ''>'' \<or> c = CHR '':'' \<or> c = CHR 0x22 \<or> c = CHR ''/'' \<or>
     c = CHR 0x5C \<or> c = CHR ''|'' \<or> c = CHR ''?'' \<or> c = CHR ''*'' \<or>
     (of_char c :: nat) \<le> 0x1F"

definition replaceIllegal :: "string \<Rightarrow> string" where
  "replaceIllegal name = map (\<lambda>c. if illegal c then CHR ''_'' else c) name"

text \<open>\<^verbatim>\<open>regexp.MustCompile(`_+`).ReplaceAllString(sanitized, "_")\<close>: every maximal
  run of underscores becomes one underscore.\<close>

fun collapseUnderscores :: "string \<Rightarrow> string" where
  "collapseUnderscores [] = []"
| "collapseUnderscores [c] = [c]"
| "collapseUnderscores (c # d # cs) =
     (if c = CHR ''_'' \<and> d = CHR ''_'' then collapseUnderscores (d # cs)
      else c # collapseUnderscores (d # cs))"

definition inCutset :: "char \<Rightarrow> bool" where
  "inCutset c \<longleftrightarrow> c = CHR '' '' \<or> c = CHR ''.'' \<or> c = CHR ''_''"

text \<open>\<^verbatim>\<open>strings.Trim(sanitized, " ._")\<close>\<close>

definition trimCutset :: "string \<Rightarrow> string" where
  "trimCutset s = rev (dropWhile inCutset (rev (dropWhile inCutset s)))"

definition sanitizeFilename :: "string \<Rightarrow> string" where
  "sanitizeFilename name =
     (let sanitized = trimCutset (collapseUnderscores (replaceIllegal name))
      in if sanitized = [] then ''unknown'' else sanitized)"

subsection \<open>The CSV reader\<close>

text \<open>
  The input file is the list of records that \<^verbatim>\<open>encoding/csv\<close> finds in it, each
  either malformed (a quoting error) or a list of fields. \<^verbatim>\<open>csv.NewReader\<close> leaves
  \<^verbatim>\<open>FieldsPerRecord\<close> at 0, so the first record read (the header) fixes the field
  count and \<^verbatim>\<open>Read\<close> reports a later record of another length with
  \<^verbatim>\<open>ErrFieldCount\<close>. Both passes of \<^verbatim>\<open>ProcessCSV\<close> make a new reader and read
  the header first.
\<close>

datatype raw_record = Malformed | Fields "string list"

datatype read_error = ParseError | ErrFieldCount

definition csv_Read :: "nat \<Rightarrow> raw_record \<Rightarrow> read_error + string list" where
  "csv_Read fieldsPerRecord l =
     (case l of
        Malformed \<Rightarrow> Inl ParseError
      | Fields fs \<Rightarrow> if length fs \<noteq> fieldsPerRecord then Inl ErrFieldCount else Inr fs)"

subsection \<open>ProcessCSV\<close>

datatype split_error = ErrReadingHeader | ErrColumnNotFound string

text \<open>The first index at which the key column's name stands in the header.\<close>

fun indexOf :: "'a \<Rightarrow> 'a list \<Rightarrow> nat option" where
  "indexOf c [] = None"
| "indexOf c (h # hs) = (if h = c then Some 0 else map_option Suc (indexOf c hs))"

definition partitionKey :: "nat \<Rightarrow> string list \<Rightarrow> string" where
  "partitionKey sourcetypeIdx record =
     (let sourcetype = record ! sourcetypeIdx
      in if sourcetype = '''' then ''unknown'' else sourcetype)"

text \<open>Pass 1. \<^verbatim>\<open>columnUsage\<close> is a \<^verbatim>\<open>map[string]map[int]bool\<close>.\<close>

fun markColumns :: "(nat \<times> string) list \<Rightarrow> (nat \<rightharpoonup> bool) \<Rightarrow> (nat \<rightharpoonup> bool)" where
  "markColumns [] used = used"
| "markColumns ((i, v) # rest) used =
     markColumns rest (if v \<noteq> '''' then used(i \<mapsto> True) else used)"

definition analyzeRecord ::
  "nat \<Rightarrow> read_error + string list \<Rightarrow> (string \<rightharpoonup> (nat \<rightharpoonup> bool)) \<Rightarrow>
   (string \<rightharpoonup> (nat \<rightharpoonup> bool))" where
  "analyzeRecord sourcetypeIdx res columnUsage =
     (case res of
        Inl err \<Rightarrow> columnUsage
      | Inr record \<Rightarrow>
          if length record \<le> sourcetypeIdx then columnUsage
          else
            let sourcetype = partitionKey sourcetypeIdx record;
                used = (case columnUsage sourcetype of None \<Rightarrow> Map.empty | Some u \<Rightarrow> u)
            in columnUsage(sourcetype \<mapsto> markColumns (enumerate 0 record) used))"

definition analyze ::
  "nat \<Rightarrow> (read_error + string list) list \<Rightarrow> (string \<rightharpoonup> (nat \<rightharpoonup> bool))" where
  "analyze sourcetypeIdx results = fold (analyzeRecord sourcetypeIdx) results Map.empty"

text \<open>The per-partition schema: the header positions whose column was marked, in header
  order. A missing key of a Go \<^verbatim>\<open>map[int]bool\<close> reads as false.\<close>

definition idxList :: "string list \<Rightarrow> (nat \<rightharpoonup> bool) \<Rightarrow> nat list" where
  "idxList header usedColumns =
     filter (\<lambda>i. case usedColumns i of None \<Rightarrow> False | Some b \<Rightarrow> b) [0..<length header]"

definition headerList :: "string list \<Rightarrow> (nat \<rightharpoonup> bool) \<Rightarrow> string list" where
  "headerList header usedColumns = map (\<lambda>i. header ! i) (idxList header usedColumns)"

definition sourcetypeHeaderIdx ::
  "string list \<Rightarrow> (string \<rightharpoonup> (nat \<rightharpoonup> bool)) \<Rightarrow> string \<Rightarrow> nat list" where
  "sourcetypeHeaderIdx header columnUsage sourcetype =
     (case columnUsage sourcetype of None \<Rightarrow> [] | Some used \<Rightarrow> idxList header used)"

definition sourcetypeHeaders ::
  "string list \<Rightarrow> (string \<rightharpoonup> (nat \<rightharpoonup> bool)) \<Rightarrow> string \<Rightarrow> string list" where
  "sourcetypeHeaders header columnUsage sourcetype =
     (case columnUsage sourcetype of None \<Rightarrow> [] | Some used \<Rightarrow> headerList header used)"

text \<open>
  Pass 2. A writer goroutine is started with its output file, header, column indices and
  channel when its partition key is first seen. The channel is the list of records sent
  on it, oldest first: both branches of the \<^verbatim>\<open>select\<close> send the record, the second
  one waiting for room, so a send always appends. \<^verbatim>\<open>recordChannels\<close> is kept as an
  association list in order of creation. The output file is named relative to the
  output directory.
\<close>

record writer =
  outputFile :: string
  headerCols :: "string list"
  colIndices :: "nat list"
  channel :: "string list list"

definition send ::
  "string \<Rightarrow> string list \<Rightarrow> (string \<times> writer) list \<Rightarrow> (string \<times> writer) list" where
  "send sourcetype record recordChannels =
     map (\<lambda>(k, w). if k = sourcetype then (k, w\<lparr>channel := channel w @ [record]\<rparr>) else (k, w))
       recordChannels"

definition routeRecord ::
  "string list \<Rightarrow> (string \<rightharpoonup> (nat \<rightharpoonup> bool)) \<Rightarrow> nat \<Rightarrow> read_error + string list \<Rightarrow>
   (string \<times> writer) list \<Rightarrow> (string \<times> writer) list" where
  "routeRecord header columnUsage sourcetypeIdx res recordChannels =
     (case res of
        Inl err \<Rightarrow> recordChannels
      | Inr record \<Rightarrow>
          if length record \<le> sourcetypeIdx then recordChannels
          else
            let sourcetype = partitionKey sourcetypeIdx record;
                chans =
                  (if map_of recordChannels sourcetype = None
                   then recordChannels @
                     [(sourcetype,
                       \<lparr>outputFile = sanitizeFilename sourcetype @ ''.csv'',
                        headerCols = sourcetypeHeaders header columnUsage sourcetype,
                        colIndices = sourcetypeHeaderIdx header columnUsage sourcetype,
                        channel = []\<rparr>)]
                   else recordChannels)
            in send sourcetype record chans)"

definition route ::
  "string list \<Rightarrow> (string \<rightharpoonup> (nat \<rightharpoonup> bool)) \<Rightarrow> nat \<Rightarrow> (read_error + string list) list \<Rightarrow>
   (string \<times> writer) list" where
  "route header columnUsage sourcetypeIdx results =
     fold (routeRecord header columnUsage sourcetypeIdx) results []"

text \<open>writeCSV: the records handed to \<^verbatim>\<open>csvWriter.Write\<close>, the header first. A file
  is the list of records written to it; \<^verbatim>\<open>os.Create\<close> truncates a file that exists.\<close>

definition filterRecord :: "nat list \<Rightarrow> string list \<Rightarrow> string list" where
  "filterRecord indices record =
     map (\<lambda>idx. if idx < length record then record ! idx else '''') indices"

definition written :: "writer \<Rightarrow> string list list" where
  "written w = headerCols w # map (filterRecord (colIndices w)) (channel w)"

definition writeCSV ::
  "writer \<Rightarrow> (string \<rightharpoonup> string list list) \<Rightarrow> (string \<rightharpoonup> string list list)" where
  "writeCSV w files = files(outputFile w \<mapsto> written w)"

text \<open>
  The writers of one input: the reads of pass 1 and of pass 2 are the same records of
  the same file. Writers run to completion one after the other, in order of creation;
  when no two of them share an output file the order cannot be observed, and when two
  do, the file holds what the later one wrote. Failures of the file system (opening,
  seeking, creating, writing) are outside the model, and so are the display statistics
  and the periodic flush, which do not change what is written: ProcessCSV fails only on
  the header.
\<close>

definition readAll :: "string list \<Rightarrow> raw_record list \<Rightarrow> (read_error + string list) list" where
  "readAll header rows = map (csv_Read (length header)) rows"

definition writers :: "string list \<Rightarrow> nat \<Rightarrow> raw_record list \<Rightarrow> (string \<times> writer) list" where
  "writers header sourcetypeIdx rows =
     route header (analyze sourcetypeIdx (readAll header rows)) sourcetypeIdx
       (readAll header rows)"

definition runWriters :: "(string \<times> writer) list \<Rightarrow> (string \<rightharpoonup> string list list)" where
  "runWriters recordChannels = fold (\<lambda>(k, w). writeCSV w) recordChannels Map.empty"

definition ProcessCSV ::
  "raw_record list \<Rightarrow> string \<Rightarrow> split_error + (string \<rightharpoonup> string list list)" where
  "ProcessCSV inputFile sourcetypeCol =
     (case inputFile of
        [] \<Rightarrow> Inl ErrReadingHeader
      | Malformed # rows \<Rightarrow> Inl ErrReadingHeader
      | Fields header # rows \<Rightarrow>
          (case indexOf sourcetypeCol header of
             None \<Rightarrow> Inl (ErrColumnNotFound sourcetypeCol)
           | Some sourcetypeIdx \<Rightarrow> Inr (runWriters (writers header sourcetypeIdx rows))))"

section \<open>The publish pipeline (package publish)\<close>

subsection \<open>Events and configuration\<close>

text \<open>
  The values of an event's field mapping (\<^verbatim>\<open>map[string]any\<close>): strings from CSV
  columns and whatever \<^verbatim>\<open>encoding/json\<close> decodes into \<^verbatim>\<open>any\<close>. A nested object is
  kept as the list of its members; the top-level mapping is a map.
\<close>

datatype json =
  JNull
| JBool bool
| JNumber real
| JString string
| JArray "json list"
| JObject "(string \<times> json) list"

text \<open>\<^verbatim>\<open>TransformerConfig\<close>. \<^verbatim>\<open>DefaultTimestamp\<close> is read only through
  \<^verbatim>\<open>Unix()\<close> and is kept as epoch seconds; \<^verbatim>\<open>TimeOffset\<close> is a
  \<^verbatim>\<open>time.Duration\<close>, a signed 64-bit count of nanoseconds.\<close>

record TransformerConfig =
  SourceType :: string
  TimeField :: string
  TimeFormat :: string
  ExcludeFields :: "string list"
  FieldMappings :: "string \<rightharpoonup> string"
  ConstantFields :: "string \<rightharpoonup> string"
  StrictMapping :: bool
  PreserveNulls :: bool
  Host :: string
  Source :: string
  Index :: string
  DiscardInvalid :: bool
  DefaultTimestamp :: "64 word option"
  TimeOffset :: "64 word"

text \<open>\<^verbatim>\<open>hec.Event\<close>\<close>

record hec_Event =
  Time :: "64 word option"
  Host :: string
  Source :: string
  SourceType :: string
  Index :: string
  Event :: "string \<rightharpoonup> json"

text \<open>
  The library functions the transformer calls, taken as parameters:
  \<^item> \<open>time_Parse\<close>: \<^verbatim>\<open>time.Parse(time.RFC3339, s)\<close> followed by \<^verbatim>\<open>Unix()\<close>, \<open>None\<close>
    when parsing fails;
  \<^item> \<open>json_Unmarshal\<close>: \<^verbatim>\<open>json.Unmarshal\<close> into a \<^verbatim>\<open>map[string]any\<close> made
    empty before the call: it returns an error (\<open>NotDecoded\<close>), or no error and the
    mapping filled from a JSON object (\<open>Decoded\<close>), or no error and the mapping set to
    nil (\<open>DecodedNil\<close>), which is what the JSON literal \<^verbatim>\<open>null\<close> does to a map;
  \<^item> \<open>rfc3339FullRGX\<close>: \<^verbatim>\<open>MatchString\<close> of the anchored timestamp pattern;
  \<^item> \<open>rfc3339RGX\<close>: \<^verbatim>\<open>FindAllStringIndex(v, -1)\<close> of the unanchored pattern, whose
    \<^verbatim>\<open>MatchString\<close> holds when the list is not empty;
  \<^item> \<open>shiftTimestamp\<close>: \<^verbatim>\<open>dateparse.ParseAny(v)\<close>, then
    \<^verbatim>\<open>Add(offset).Format(time.RFC3339)\<close>, \<open>None\<close> when parsing fails.
\<close>

datatype unmarshaled = NotDecoded | DecodedNil | Decoded "string \<rightharpoonup> json"

record golib =
  time_Parse :: "string \<Rightarrow> 64 word option"
  json_Unmarshal :: "string \<Rightarrow> unmarshaled"
  rfc3339FullRGX :: "string \<Rightarrow> bool"
  rfc3339RGX :: "string \<Rightarrow> (nat \<times> nat) list"
  shiftTimestamp :: "string \<Rightarrow> 64 word \<Rightarrow> string option"

datatype transform_error =
  InvalidTimestamp
| ErrReadingCSVHeader
| ErrTimeFieldNotFound string
| ErrReadingCSV nat
| ErrTransformingRecord nat transform_error

subsection \<open>transformRecord\<close>

text \<open>The timestamp of the event, or the error of a row that is discarded.\<close>

definition resolveTime ::
  "golib \<Rightarrow> TransformerConfig \<Rightarrow> string list \<Rightarrow> int \<Rightarrow> transform_error + 64 word option" where
  "resolveTime L config record timeIndex =
     (if 0 \<le> timeIndex \<and> timeIndex < int (length record) then
        (case time_Parse L (record ! nat timeIndex) of
           None \<Rightarrow>
             if DiscardInvalid config then Inl InvalidTimestamp
             else Inr (DefaultTimestamp config)
         | Some timestamp \<Rightarrow> Inr (Some timestamp))
      else Inr (DefaultTimestamp config))"

text \<open>What the \<^verbatim>\<open>_raw\<close> column decodes to; \<open>NotDecoded\<close> when there is no such column,
  the record is too short, the value is empty or the decoder returns an error.\<close>

definition rawObject :: "golib \<Rightarrow> (string \<rightharpoonup> nat) \<Rightarrow> string list \<Rightarrow> unmarshaled" where
  "rawObject L headerIndices record =
     (case headerIndices ''_raw'' of
        None \<Rightarrow> NotDecoded
      | Some rawIndex \<Rightarrow>
          if rawIndex < length record then
            (let rawValue = record ! rawIndex
             in if rawValue \<noteq> '''' then json_Unmarshal L rawValue else NotDecoded)
          else NotDecoded)"

text \<open>What follows the \<^verbatim>\<open>switch\<close> in the loop over the fields of a record.\<close>

definition addField ::
  "TransformerConfig \<Rightarrow> int \<Rightarrow> (string \<rightharpoonup> bool) \<Rightarrow> bool \<Rightarrow> nat \<Rightarrow> string \<Rightarrow> string \<Rightarrow>
   hec_Event \<Rightarrow> hec_Event" where
  "addField config timeIndex excludeFields rawIsJSON i fieldName v event =
     (if rawIsJSON then event
      else if (case excludeFields fieldName of None \<Rightarrow> False | Some b \<Rightarrow> b) then event
      else if int i = timeIndex then event
      else
        (case (case FieldMappings config fieldName of
                 Some mappedName \<Rightarrow> Some mappedName
               | None \<Rightarrow> if StrictMapping config then None else Some fieldName) of
           None \<Rightarrow> event
         | Some name \<Rightarrow>
             if v = '''' \<and> \<not> PreserveNulls config then event
             else event\<lparr>Event := (Event event)(name \<mapsto> JString v)\<rparr>))"

text \<open>One iteration of the loop: the \<^verbatim>\<open>switch\<close> on the column name takes the first
  case that matches, the time field first.\<close>

definition processField ::
  "TransformerConfig \<Rightarrow> string list \<Rightarrow> int \<Rightarrow> (string \<rightharpoonup> bool) \<Rightarrow> bool \<Rightarrow> nat \<times> string \<Rightarrow>
   hec_Event \<Rightarrow> hec_Event" where
  "processField config header timeIndex excludeFields rawIsJSON iv event =
     (let i = fst iv; v = snd iv in
      if i \<ge> length header then event
      else
        let fieldName = header ! i;
            rest = addField config timeIndex excludeFields rawIsJSON i fieldName v
        in
          if fieldName = TimeField config then event
          else if fieldName = ''_raw'' then
            (if rawIsJSON then event
             else rest (if v \<noteq> '''' then event\<lparr>Event := (Event event)(''_raw'' \<mapsto> JString v)\<rparr>
                        else event))
          else if fieldName = ''host'' then
            (if TransformerConfig.Host config \<noteq> ''''
             then event\<lparr>Host := TransformerConfig.Host config\<rparr> else rest event)
          else if fieldName = ''source'' then
            (if TransformerConfig.Source config \<noteq> ''''
             then event\<lparr>Source := TransformerConfig.Source config\<rparr> else rest event)
          else if fieldName = ''sourcetype'' then
            (if TransformerConfig.SourceType config \<noteq> ''''
             then event\<lparr>SourceType := TransformerConfig.SourceType config\<rparr> else rest event)
          else if fieldName = ''index'' then
            (if TransformerConfig.Index config \<noteq> ''''
             then event\<lparr>Index := TransformerConfig.Index config\<rparr> else rest event)
          else if fieldName = ''punct'' then event
          else rest event)"

definition constantFields :: "TransformerConfig \<Rightarrow> (string \<rightharpoonup> json)" where
  "constantFields config = (\<lambda>key. map_option JString (ConstantFields config key))"

text \<open>
  The result is \<open>None\<close> where the Go function panics instead of returning: the decoder
  has set the mapping to nil and the loop over the constant fields stores into it. A
  nil mapping reads as the empty mapping everywhere else. Otherwise the result is the
  error or the event returned.
\<close>

definition transformRecord ::
  "golib \<Rightarrow> TransformerConfig \<Rightarrow> string list \<Rightarrow> string list \<Rightarrow> (string \<rightharpoonup> nat) \<Rightarrow> int \<Rightarrow>
   (string \<rightharpoonup> bool) \<Rightarrow> (transform_error + hec_Event) option" where
  "transformRecord L config record header headerIndices timeIndex excludeFields =
     (case resolveTime L config record timeIndex of
        Inl err \<Rightarrow> Some (Inl err)
      | Inr tm \<Rightarrow>
          let event =
                \<lparr>Time = tm,
                 Host = TransformerConfig.Host config,
                 Source = TransformerConfig.Source config,
                 SourceType = TransformerConfig.SourceType config,
                 Index = TransformerConfig.Index config,
                 Event = Map.empty\<rparr>;
              raw = rawObject L headerIndices record;
              rawIsJSON = (raw \<noteq> NotDecoded);
              event =
                (case raw of
                   NotDecoded \<Rightarrow> event
                 | DecodedNil \<Rightarrow> event\<lparr>Event := Map.empty\<rparr>
                 | Decoded rawJSON \<Rightarrow> event\<lparr>Event := rawJSON\<rparr>);
              event =
                fold (processField config header timeIndex excludeFields rawIsJSON)
                  (enumerate 0 record) event
          in if raw = DecodedNil \<and> ConstantFields config \<noteq> Map.empty then None
             else Some (Inr (event\<lparr>Event := Event event ++ constantFields config\<rparr>)))"

subsection \<open>applyTimeOffsets\<close>

text \<open>\<^verbatim>\<open>strings.Replace(s, old, new, 1)\<close>\<close>

fun replaceFirst :: "string \<Rightarrow> string \<Rightarrow> string \<Rightarrow> string" where
  "replaceFirst [] old new = (if old = [] then new else [])"
| "replaceFirst (c # cs) old new =
     (if take (length old) (c # cs) = old then new @ drop (length old) (c # cs)
      else c # replaceFirst cs old new)"

text \<open>The string case. In the second branch every match parses the whole string again
  and replaces in the original string, so the last match decides.\<close>

definition offsetString :: "golib \<Rightarrow> 64 word \<Rightarrow> string \<Rightarrow> string" where
  "offsetString L offset v =
     (if rfc3339FullRGX L v then
        (case shiftTimestamp L v offset of None \<Rightarrow> v | Some shifted \<Rightarrow> shifted)
      else
        fold (\<lambda>match cur.
                let timestampStr = take (snd match - fst match) (drop (fst match) v)
                in case shiftTimestamp L v offset of
                     None \<Rightarrow> cur
                   | Some shifted \<Rightarrow> replaceFirst v timestampStr shifted)
          (rfc3339RGX L v) v)"

text \<open>What the loop stores for one value of the mapping: nested mappings are walked,
  in a sequence only the items that are mappings, strings are rewritten.\<close>

fun offsetValue :: "golib \<Rightarrow> 64 word \<Rightarrow> json \<Rightarrow> json" where
  "offsetValue L offset (JObject members) =
     JObject (map (\<lambda>kv. (fst kv, offsetValue L offset (snd kv))) members)"
| "offsetValue L offset (JArray items) =
     JArray (map (\<lambda>item. case item of
                    JObject members \<Rightarrow> offsetValue L offset item
                  | _ \<Rightarrow> item) items)"
| "offsetValue L offset (JString v) = JString (offsetString L offset v)"
| "offsetValue L offset v = v"

text \<open>\<^verbatim>\<open>int64(offset.Seconds())\<close>: the whole seconds of the duration, rounded towards
  zero (the floating-point rounding of \<^verbatim>\<open>Seconds\<close> is left out).\<close>

definition offsetSeconds :: "64 word \<Rightarrow> 64 word" where
  "offsetSeconds offset = word_of_int (sint offset sdiv 1000000000)"

definition applyTimeOffsets :: "golib \<Rightarrow> hec_Event \<Rightarrow> 64 word \<Rightarrow> hec_Event" where
  "applyTimeOffsets L event offset =
     event\<lparr>Time := map_option (\<lambda>t. t + offsetSeconds offset) (Time event),
           Event := (\<lambda>key. map_option (offsetValue L offset) (Event event key))\<rparr>"

subsection \<open>TransformCSV\<close>

definition headerIndicesOf :: "string list \<Rightarrow> (string \<rightharpoonup> nat)" where
  "headerIndicesOf header = fold (\<lambda>ih m. m(snd ih \<mapsto> fst ih)) (enumerate 0 header) Map.empty"

definition timeIndexOf :: "TransformerConfig \<Rightarrow> (string \<rightharpoonup> nat) \<Rightarrow> transform_error + int" where
  "timeIndexOf config headerIndices =
     (if TimeField config \<noteq> '''' then
        (case headerIndices (TimeField config) of
           Some i \<Rightarrow> Inr (int i)
         | None \<Rightarrow>
             if \<not> DiscardInvalid config \<and> DefaultTimestamp config = None
             then Inl (ErrTimeFieldNotFound (TimeField config))
             else Inr 0)
      else Inr (- 1))"

definition excludeFieldsOf :: "TransformerConfig \<Rightarrow> (string \<rightharpoonup> bool)" where
  "excludeFieldsOf config = fold (\<lambda>field m. m(field \<mapsto> True)) (ExcludeFields config) Map.empty"

definition offsetStage :: "golib \<Rightarrow> TransformerConfig \<Rightarrow> hec_Event \<Rightarrow> hec_Event" where
  "offsetStage L config event =
     (if TimeOffset config \<noteq> 0 then applyTimeOffsets L event (TimeOffset config) else event)"

text \<open>The loop over the records; \<open>lineNum\<close> is the line counter before the iteration.
  A panic in transformRecord is not recovered: the result is \<open>None\<close>.\<close>

fun transformRecords ::
  "golib \<Rightarrow> TransformerConfig \<Rightarrow> string list \<Rightarrow> (string \<rightharpoonup> nat) \<Rightarrow> int \<Rightarrow> (string \<rightharpoonup> bool) \<Rightarrow>
   nat \<Rightarrow> raw_record list \<Rightarrow> hec_Event list \<Rightarrow> (transform_error + hec_Event list) option" where
  "transformRecords L config header headerIndices timeIndex excludeFields lineNum [] events =
     Some (Inr events)"
| "transformRecords L config header headerIndices timeIndex excludeFields lineNum (l # rest) events =
     (case csv_Read (length header) l of
        Inl err \<Rightarrow> Some (Inl (ErrReadingCSV (lineNum + 1)))
      | Inr record \<Rightarrow>
          (case transformRecord L config record header headerIndices timeIndex excludeFields of
             None \<Rightarrow> None
           | Some (Inl err) \<Rightarrow>
               if DiscardInvalid config
               then transformRecords L config header headerIndices timeIndex excludeFields
                      (lineNum + 1) rest events
               else Some (Inl (ErrTransformingRecord (lineNum + 1) err))
           | Some (Inr event) \<Rightarrow>
               transformRecords L config header headerIndices timeIndex excludeFields
                 (lineNum + 1) rest (events @ [offsetStage L config event])))"

definition TransformCSV ::
  "golib \<Rightarrow> TransformerConfig \<Rightarrow> raw_record list \<Rightarrow> (transform_error + hec_Event list) option" where
  "TransformCSV L config reader =
     (case reader of
        [] \<Rightarrow> Some (Inl ErrReadingCSVHeader)
      | Malformed # rows \<Rightarrow> Some (Inl ErrReadingCSVHeader)
      | Fields header # rows \<Rightarrow>
          (case timeIndexOf config (headerIndicesOf header) of
             Inl err \<Rightarrow> Some (Inl err)
           | Inr timeIndex \<Rightarrow>
               transformRecords L config header (headerIndicesOf header) timeIndex
                 (excludeFieldsOf config) 1 rows []))"

text \<open>\<^verbatim>\<open>NewDefaultTransformerConfig\<close>\<close>

definition NewDefaultTransformerConfig :: TransformerConfig where
  "NewDefaultTransformerConfig =
     \<lparr>TransformerConfig.SourceType = [], TimeField = ''_time'', TimeFormat = ''epoch'',
      ExcludeFields = [], FieldMappings = Map.empty, ConstantFields = Map.empty,
      StrictMapping = False, PreserveNulls = False, TransformerConfig.Host = [],
      TransformerConfig.Source = [], TransformerConfig.Index = [], DiscardInvalid = False,
      DefaultTimestamp = None, TimeOffset = 0\<rparr>"

subsection \<open>The publisher\<close>

text \<open>
  \<^verbatim>\<open>Progress\<close>, without its wall-clock fields, and \<^verbatim>\<open>PublisherConfig\<close>, without the
  client, the transformer, the progress channel and the debug flag (the client and the
  transformer are passed on their own; a notification on the channel and a log line do
  not change the counters). \<^verbatim>\<open>RetryWait\<close> is a duration in nanoseconds; sleeping is
  not modelled.
\<close>

record Progress =
  TotalFiles :: int
  ProcessedFiles :: int
  TotalEvents :: int
  PublishedEvents :: int
  FailedEvents :: int
  CurrentFile :: string
  Status :: string

definition UpdateProgress :: "Progress \<Rightarrow> int \<Rightarrow> int \<Rightarrow> int \<Rightarrow> int \<Rightarrow> string \<Rightarrow> Progress" where
  "UpdateProgress p processedFiles totalEvents publishedEvents failedEvents currentFile =
     p\<lparr>ProcessedFiles := processedFiles, TotalEvents := totalEvents,
       PublishedEvents := publishedEvents, FailedEvents := failedEvents,
       CurrentFile := currentFile\<rparr>"

definition SetStatus :: "Progress \<Rightarrow> string \<Rightarrow> Progress" where
  "SetStatus p status = p\<lparr>Status := status\<rparr>"

record PublisherConfig =
  Concurrency :: int
  BatchSize :: int
  RetryCount :: int
  RetryWait :: int
  DryRun :: bool

definition NewPublisher :: "PublisherConfig \<Rightarrow> PublisherConfig" where
  "NewPublisher config =
     (let config = (if RetryCount config \<le> 0 then config\<lparr>RetryCount := 3\<rparr> else config);
          config = (if RetryWait config \<le> 0 then config\<lparr>RetryWait := 2000000000\<rparr> else config);
          config = (if Concurrency config \<le> 0 then config\<lparr>Concurrency := 4\<rparr> else config)
      in if BatchSize config \<le> 0 then config\<lparr>BatchSize := 100\<rparr> else config)"

datatype publish_error =
  ErrOpeningFile
| ErrTransformingCSV transform_error
| ErrSend nat
| ErrFailedAfterRetries int publish_error

text \<open>
  The sink is the client's \<^verbatim>\<open>SendEvents\<close>, taken as a whole: it returns at once for
  an empty batch; otherwise the call succeeds or fails, and \<open>sink n\<close> tells whether the
  \<open>n\<close>-th call (counted from 0) succeeds. The transport, the defaults the client fills
  in and its splitting of a batch longer than its own batch size are inside the sink.
  The state counts the calls made and keeps the batches that were accepted, next to
  the progress counters.
\<close>

record pub_state =
  progress :: Progress
  attempts :: nat
  delivered :: "hec_Event list list"

definition SendEvents ::
  "(nat \<Rightarrow> bool) \<Rightarrow> hec_Event list \<Rightarrow> pub_state \<Rightarrow> publish_error option \<times> pub_state" where
  "SendEvents sink events st =
     (if events = [] then (None, st)
      else if sink (attempts st)
      then (None, st\<lparr>attempts := Suc (attempts st), delivered := delivered st @ [events]\<rparr>)
      else (Some (ErrSend (attempts st)), st\<lparr>attempts := Suc (attempts st)\<rparr>))"

text \<open>\<^verbatim>\<open>%d\<close>\<close>

function showNat :: "nat \<Rightarrow> string" where
  "showNat n =
     (if n < 10 then [char_of (48 + n)] else showNat (n div 10) @ [char_of (48 + n mod 10)])"
  by pat_completeness auto
termination
  by (relation "measure id") auto

definition showInt :: "int \<Rightarrow> string" where
  "showInt i = (if i < 0 then CHR ''-'' # showNat (nat (- i)) else showNat (nat i))"

text \<open>The retry loop of one batch: \<open>retry\<close> is the loop counter, \<open>sendErr\<close> the last
  error.\<close>

function retryLoop ::
  "(nat \<Rightarrow> bool) \<Rightarrow> PublisherConfig \<Rightarrow> hec_Event list \<Rightarrow> int \<Rightarrow> publish_error option \<Rightarrow>
   pub_state \<Rightarrow> publish_error option \<times> pub_state" where
  "retryLoop sink config batch retry sendErr st =
     (if retry < RetryCount config then
        (let st =
               (if retry > 0
                then st\<lparr>progress :=
                       SetStatus (progress st)
                         (''Retrying batch ('' @ showInt (retry + 1) @ ''/'' @
                          showInt (RetryCount config) @ '')'')\<rparr>
                else st)
         in case SendEvents sink batch st of
              (Some err, st) \<Rightarrow> retryLoop sink config batch (retry + 1) (Some err) st
            | (None, st) \<Rightarrow> (None, st))
      else (sendErr, st))"
  by pat_completeness auto
termination
  by (relation "measure (\<lambda>(sink, config, batch, retry, sendErr, st). nat (RetryCount config - retry))")
    auto

text \<open>One batch: the retry loop and the update of the counters that follows it.\<close>

definition sendBatch ::
  "(nat \<Rightarrow> bool) \<Rightarrow> PublisherConfig \<Rightarrow> string \<Rightarrow> hec_Event list \<Rightarrow> pub_state \<Rightarrow>
   publish_error option \<times> pub_state" where
  "sendBatch sink config base batch st =
     (case retryLoop sink config batch 0 None st of
        (Some sendErr, st) \<Rightarrow>
          (Some (ErrFailedAfterRetries (RetryCount config) sendErr),
           st\<lparr>progress :=
                UpdateProgress (progress st) (ProcessedFiles (progress st))
                  (TotalEvents (progress st)) (PublishedEvents (progress st))
                  (FailedEvents (progress st) + int (length batch)) base\<rparr>)
      | (None, st) \<Rightarrow>
          (None,
           st\<lparr>progress :=
                UpdateProgress (progress st) (ProcessedFiles (progress st))
                  (TotalEvents (progress st)) (PublishedEvents (progress st) + int (length batch))
                  (FailedEvents (progress st)) base\<rparr>))"

text \<open>
  The loop over the batches, from index \<open>i\<close>. With a batch size that is not positive
  the Go loop does not return (it sends the empty batch for ever, or the slice
  expression panics); that is the value \<open>None\<close>. \<^verbatim>\<open>NewPublisher\<close> rules it out.
\<close>

definition slice :: "'a list \<Rightarrow> int \<Rightarrow> int \<Rightarrow> 'a list" where
  "slice xs i j = take (nat (j - i)) (drop (nat i) xs)"

function sendBatches ::
  "(nat \<Rightarrow> bool) \<Rightarrow> PublisherConfig \<Rightarrow> string \<Rightarrow> hec_Event list \<Rightarrow> int \<Rightarrow> pub_state \<Rightarrow>
   (publish_error option \<times> pub_state) option" where
  "sendBatches sink config base events i st =
     (if i < int (length events) then
        (if BatchSize config \<le> 0 then None
         else
           let end = (if i + BatchSize config > int (length events) then int (length events)
                      else i + BatchSize config);
               batch = slice events i end
           in case sendBatch sink config base batch st of
                (Some err, st) \<Rightarrow> Some (Some err, st)
              | (None, st) \<Rightarrow> sendBatches sink config base events (i + BatchSize config) st)
      else Some (None, st))"
  by pat_completeness auto
termination
  by (relation "measure (\<lambda>(sink, config, base, events, i, st). nat (int (length events) - i))")
    auto

text \<open>\<^verbatim>\<open>filepath.Base\<close> on a path with the separator \<^verbatim>\<open>/\<close>.\<close>

definition filepath_Base :: "string \<Rightarrow> string" where
  "filepath_Base path =
     (if path = [] then ''.''
      else
        let stripped = rev (dropWhile (\<lambda>c. c = CHR ''/'') (rev path));
            last = rev (takeWhile (\<lambda>c. c \<noteq> CHR ''/'') (rev stripped))
        in if last = [] then ''/'' else last)"

text \<open>
  processFile, for one worker: \<open>file\<close> is the content of the file at \<open>filePath\<close>, \<open>None\<close>
  when it cannot be opened. The transformer's source type is set to the one of the
  file before the rows are transformed. The result is \<open>None\<close> where the Go function
  does not return.
\<close>

definition processFile ::
  "golib \<Rightarrow> (nat \<Rightarrow> bool) \<Rightarrow> PublisherConfig \<Rightarrow> TransformerConfig \<Rightarrow> raw_record list option \<Rightarrow>
   string \<Rightarrow> string \<Rightarrow> pub_state \<Rightarrow> (publish_error option \<times> pub_state) option" where
  "processFile L sink config tConfig file filePath sourcetype st =
     (case file of
        None \<Rightarrow> Some (Some ErrOpeningFile, st)
      | Some reader \<Rightarrow>
          (case TransformCSV L (tConfig\<lparr>TransformerConfig.SourceType := sourcetype\<rparr>) reader of
             None \<Rightarrow> None
           | Some (Inl err) \<Rightarrow> Some (Some (ErrTransformingCSV err), st)
           | Some (Inr events) \<Rightarrow>
               let p = progress st;
                   p = UpdateProgress p (ProcessedFiles p) (TotalEvents p + int (length events))
                         (PublishedEvents p) (FailedEvents p) (filepath_Base filePath);
                   st = st\<lparr>progress := p\<rparr>
               in
                 if DryRun config then
                   Some (None,
                     st\<lparr>progress :=
                          SetStatus
                            (UpdateProgress p (ProcessedFiles p + 1) (TotalEvents p)
                               (PublishedEvents p + int (length events)) (FailedEvents p) '''')
                            ''Dry run - events not sent''\<rparr>)
                 else
                   (case sendBatches sink config (filepath_Base filePath) events 0 st of
                      None \<Rightarrow> None
                    | Some (Some err, st) \<Rightarrow> Some (Some err, st)
                    | Some (None, st) \<Rightarrow>
                        Some (None,
                          st\<lparr>progress :=
                               UpdateProgress (progress st) (ProcessedFiles (progress st) + 1)
                                 (TotalEvents (progress st)) (PublishedEvents (progress st))
                                 (FailedEvents (progress st)) ''''\<rparr>))))"

declare showNat.simps [simp del] retryLoop.simps [simp del] sendBatches.simps [simp del]

section \<open>Notions used in the statements\<close>

subsection \<open>File names\<close>

text \<open>No two underscores next to each other: what collapsing establishes.\<close>

fun noDoubleUnderscore :: "string \<Rightarrow> bool" where
  "noDoubleUnderscore (c # d # cs) \<longleftrightarrow>
     \<not> (c = CHR ''_'' \<and> d = CHR ''_'') \<and> noDoubleUnderscore (d # cs)"
| "noDoubleUnderscore _ \<longleftrightarrow> True"

subsection \<open>Rows of the input and rows of the output\<close>

text \<open>The non-skipped rows of an input: the records read without error that have more
  fields than the index of the key column, in input order.\<close>

fun nonSkipped :: "nat \<Rightarrow> (read_error + string list) list \<Rightarrow> string list list" where
  "nonSkipped idx [] = []"
| "nonSkipped idx (Inl e # rest) = nonSkipped idx rest"
| "nonSkipped idx (Inr r # rest) =
     (if idx < length r then r # nonSkipped idx rest else nonSkipped idx rest)"

text \<open>Column \<open>i\<close> is marked for partition \<open>k\<close>.\<close>

definition usageOf :: "(string \<rightharpoonup> (nat \<rightharpoonup> bool)) \<Rightarrow> string \<Rightarrow> nat \<Rightarrow> bool" where
  "usageOf columnUsage k i \<longleftrightarrow> (\<exists>used. columnUsage k = Some used \<and> used i = Some True)"

text \<open>The writer that pass 2 starts for key \<open>k\<close>, with \<open>q\<close> on its channel, and the
  invariant of the routing loop after the non-skipped rows \<open>xs\<close>: one writer per key seen,
  holding exactly the rows of its key, in arrival order.\<close>

definition mkWriter ::
  "string list \<Rightarrow> (string \<rightharpoonup> (nat \<rightharpoonup> bool)) \<Rightarrow> string \<Rightarrow> string list list \<Rightarrow> writer" where
  "mkWriter header U k q =
     \<lparr>outputFile = sanitizeFilename k @ ''.csv'',
      headerCols = sourcetypeHeaders header U k,
      colIndices = sourcetypeHeaderIdx header U k,
      channel = q\<rparr>"

definition routed ::
  "string list \<Rightarrow> (string \<rightharpoonup> (nat \<rightharpoonup> bool)) \<Rightarrow> nat \<Rightarrow> string list list \<Rightarrow>
   (string \<times> writer) list \<Rightarrow> bool" where
  "routed header U idx xs ws \<longleftrightarrow>
     distinct (map fst ws) \<and>
     fst ` set ws = partitionKey idx ` set xs \<and>
     (\<forall>(k, w) \<in> set ws. w = mkWriter header U k (filter (\<lambda>r. partitionKey idx r = k) xs))"

text \<open>
  Reading an output row back through the recorded column indices: a row of \<open>n\<close> fields
  that carries the \<open>j\<close>-th output field at position \<open>indices ! j\<close> and the empty string at
  every position that is not recorded.
\<close>

definition readBack :: "nat \<Rightarrow> nat list \<Rightarrow> string list \<Rightarrow> string list" where
  "readBack n indices row =
     map (\<lambda>i. case indexOf i indices of
                 None \<Rightarrow> ''''
               | Some j \<Rightarrow> if j < length row then row ! j else '''') [0..<n]"

text \<open>The data rows of an output file (all records but the header line), and the
  multiset of the rows found in the output files of all partitions, each file read back
  through the indices of its partition.\<close>

definition dataRows :: "(string \<rightharpoonup> string list list) \<Rightarrow> string \<Rightarrow> string list list" where
  "dataRows files name = (case files name of None \<Rightarrow> [] | Some recs \<Rightarrow> tl recs)"

definition recoveredRows ::
  "nat \<Rightarrow> (string \<times> writer) list \<Rightarrow> (string \<rightharpoonup> string list list) \<Rightarrow>
   string list multiset" where
  "recoveredRows n ws files =
     sum_list
       (map (\<lambda>(k, w). mset (map (readBack n (colIndices w)) (dataRows files (outputFile w))))
          ws)"

subsection \<open>Example inputs\<close>

text \<open>The scenario of the specification: header \<^verbatim>\<open>time,sourcetype,a,b\<close> and three
  rows.\<close>

definition scenario_header :: "string list" where
  "scenario_header = [''time'', ''sourcetype'', ''a'', ''b'']"

definition scenario_rows :: "raw_record list" where
  "scenario_rows =
     [Fields [''1'', ''x'', '''', ''1''], Fields [''2'', ''x'', ''2'', ''''],
      Fields [''3'', ''y'', ''3'', ''4'']]"

text \<open>Two partition keys, \<^verbatim>\<open>a:b\<close> and \<^verbatim>\<open>a?b\<close>, both sanitized to \<^verbatim>\<open>a_b\<close>; the
  header is the single column \<^verbatim>\<open>k\<close>.\<close>

definition collision_rows :: "raw_record list" where
  "collision_rows = [Fields [''a:b''], Fields [''a?b'']]"

subsection \<open>Progress counters\<close>

text \<open>Everything in \<^verbatim>\<open>Progress\<close> but the status line.\<close>

definition counters :: "Progress \<Rightarrow> int \<times> int \<times> int \<times> int \<times> int \<times> string" where
  "counters p =
     (TotalFiles p, ProcessedFiles p, TotalEvents p, PublishedEvents p, FailedEvents p,
      CurrentFile p)"

subsection \<open>Example library, events and publisher\<close>

text \<open>
  The document \<^verbatim>\<open>{"k":1}\<close>, and a library that agrees with the Go functions on the
  strings the examples use: it parses the timestamp \<^verbatim>\<open>2024-01-01T00:00:00Z\<close> (epoch
  second 1704067200), decodes \<^verbatim>\<open>{"k":1}\<close> to a mapping and \<^verbatim>\<open>null\<close> to the nil
  mapping, and fails on the other strings the examples feed it, which are neither
  timestamps nor JSON.
\<close>

definition raw_k1 :: string where
  "raw_k1 = [CHR ''{'', CHR 0x22, CHR ''k'', CHR 0x22, CHR '':'', CHR ''1'', CHR ''}'']"

definition example_lib :: golib where
  "example_lib =
     \<lparr>time_Parse = (\<lambda>s. if s = ''2024-01-01T00:00:00Z'' then Some 1704067200 else None),
      json_Unmarshal =
        (\<lambda>s. if s = raw_k1 then Decoded [''k'' \<mapsto> JNumber 1]
             else if s = ''null'' then DecodedNil else NotDecoded),
      rfc3339FullRGX = (\<lambda>s. s = ''2024-01-01T00:00:00Z''),
      rfc3339RGX = (\<lambda>s. if s = ''2024-01-01T00:00:00Z'' then [(0, 20)] else []),
      shiftTimestamp =
        (\<lambda>s offset. if s = ''2024-01-01T00:00:00Z'' \<and> offset = 0
                    then Some ''2024-01-01T00:00:00Z'' else None)\<rparr>"

definition example_event :: "string \<Rightarrow> hec_Event" where
  "example_event msg =
     \<lparr>Time = None, Host = '''', Source = '''', SourceType = ''x'', Index = '''',
      Event = [''message'' \<mapsto> JString msg]\<rparr>"

definition example_publisher :: PublisherConfig where
  "example_publisher =
     NewPublisher \<lparr>Concurrency = 0, BatchSize = 2, RetryCount = 0, RetryWait = 0, DryRun = False\<rparr>"

definition initial_state :: pub_state where
  "initial_state =
     \<lparr>progress =
        \<lparr>TotalFiles = 1, ProcessedFiles = 0, TotalEvents = 3, PublishedEvents = 0,
         FailedEvents = 0, CurrentFile = ''x.csv'', Status = ''Starting''\<rparr>,
      attempts = 0, delivered = []\<rparr>"

section \<open>Properties\<close>

subsection \<open>sanitizeFilename is idempotent\<close>

lemma collapse_hd:
  "collapseUnderscores (c # cs) \<noteq> [] \<and> hd (collapseUnderscores (c # cs)) = c"
  by (induction "c # cs" arbitrary: c cs rule: collapseUnderscores.induct) auto

lemma noDouble_collapse: "noDoubleUnderscore (collapseUnderscores s)"
proof (induction s rule: collapseUnderscores.induct)
  case (3 c d cs)
  obtain ys where ys: "collapseUnderscores (d # cs) = d # ys"
    using collapse_hd [of d cs] by (cases "collapseUnderscores (d # cs)") auto
  with 3 show ?case by auto
qed simp_all

lemma collapse_fixed: "noDoubleUnderscore s \<Longrightarrow> collapseUnderscores s = s"
  by (induction s rule: collapseUnderscores.induct) auto

lemma noDouble_tl: "noDoubleUnderscore (c # s) \<Longrightarrow> noDoubleUnderscore s"
  by (cases s) auto

lemma noDouble_append_right: "noDoubleUnderscore (xs @ ys) \<Longrightarrow> noDoubleUnderscore ys"
  by (induction xs) (auto dest: noDouble_tl)

lemma noDouble_append_left: "noDoubleUnderscore (xs @ ys) \<Longrightarrow> noDoubleUnderscore xs"
proof (induction xs rule: noDoubleUnderscore.induct)
  case (1 c d cs)
  then show ?case by simp
qed simp_all

lemma noDouble_dropWhile: "noDoubleUnderscore s \<Longrightarrow> noDoubleUnderscore (dropWhile P s)"
  using noDouble_append_right [of "takeWhile P s" "dropWhile P s"] by simp

lemma noDouble_dropWhile_end:
  assumes "noDoubleUnderscore s"
  shows "noDoubleUnderscore (rev (dropWhile P (rev s)))"
proof -
  have "s = rev (dropWhile P (rev s)) @ rev (takeWhile P (rev s))"
    by (metis rev_append rev_rev_ident takeWhile_dropWhile_id)
  with assms noDouble_append_left show ?thesis by metis
qed

lemma noDouble_trim: "noDoubleUnderscore s \<Longrightarrow> noDoubleUnderscore (trimCutset s)"
  unfolding trimCutset_def by (intro noDouble_dropWhile_end noDouble_dropWhile)

lemma underscore_legal: "\<not> illegal (CHR ''_'')"
  by (simp add: illegal_def)

lemma replaceIllegal_fixed: "\<forall>c \<in> set s. \<not> illegal c \<Longrightarrow> replaceIllegal s = s"
  unfolding replaceIllegal_def by (induction s) auto

lemma legal_replaceIllegal: "\<forall>c \<in> set (replaceIllegal s). \<not> illegal c"
  unfolding replaceIllegal_def using underscore_legal by auto

lemma set_collapse: "set (collapseUnderscores s) \<subseteq> set s"
  by (induction s rule: collapseUnderscores.induct) auto

lemma set_trim: "set (trimCutset s) \<subseteq> set s"
  unfolding trimCutset_def
  by (metis set_dropWhileD set_rev subsetI)

lemma trim_fixed:
  assumes "t = trimCutset s"
  shows "trimCutset t = t"
proof (cases "t = []")
  case True
  then show ?thesis by (simp add: trimCutset_def)
next
  case False
  let ?d = "dropWhile inCutset s"
  have t: "rev t = dropWhile inCutset (rev ?d)"
    using assms by (simp add: trimCutset_def)
  with False have last_ok: "\<not> inCutset (hd (rev t))"
    by (metis hd_dropWhile rev_is_Nil_conv)
  have "dropWhile inCutset (rev ?d) \<noteq> []" using t False by (metis rev_is_Nil_conv)
  then have "rev ?d \<noteq> []" by (metis dropWhile.simps(1))
  then have d_ne: "?d \<noteq> []" by simp
  then have hd_d: "\<not> inCutset (hd ?d)" by (rule hd_dropWhile)
  have "?d = t @ rev (takeWhile inCutset (rev ?d))"
    using t by (metis rev_append rev_rev_ident takeWhile_dropWhile_id)
  with False have "hd t = hd ?d" by (metis hd_append2)
  with hd_d have first_ok: "\<not> inCutset (hd t)" by simp
  from first_ok False have "dropWhile inCutset t = t"
    by (cases t) auto
  moreover from last_ok False have "dropWhile inCutset (rev t) = rev t"
    by (cases "rev t") auto
  ultimately show ?thesis by (simp add: trimCutset_def)
qed

text \<open>
  Claim C9. Sanitizing a partition key twice gives the same file name as sanitizing it
  once: for every string \<open>s\<close>, \<open>sanitizeFilename (sanitizeFilename s) = sanitizeFilename s\<close>,
  where sanitizing replaces the illegal characters by an underscore, collapses runs of
  underscores, trims spaces, dots and underscores at both ends, and maps an empty result
  to \<open>unknown\<close>.
\<close>

theorem sanitizeFilename_idempotent:
  "sanitizeFilename (sanitizeFilename s) = sanitizeFilename s"
proof -
  define t where "t = trimCutset (collapseUnderscores (replaceIllegal s))"
  show ?thesis
  proof (cases "t = []")
    case True
    have "sanitizeFilename ''unknown'' = ''unknown''"
      by (simp add: sanitizeFilename_def replaceIllegal_def illegal_def trimCutset_def
          inCutset_def)
    with True show ?thesis by (simp add: sanitizeFilename_def t_def)
  next
    case False
    have legal: "\<forall>c \<in> set t. \<not> illegal c"
      using legal_replaceIllegal [of s] set_collapse [of "replaceIllegal s"]
        set_trim [of "collapseUnderscores (replaceIllegal s)"]
      unfolding t_def by blast
    have nd: "noDoubleUnderscore t"
      unfolding t_def by (intro noDouble_trim noDouble_collapse)
    have "trimCutset (collapseUnderscores (replaceIllegal t)) = t"
      using replaceIllegal_fixed [OF legal] collapse_fixed [OF nd] trim_fixed [OF t_def]
      by simp
    with False show ?thesis by (simp add: sanitizeFilename_def t_def Let_def)
  qed
qed

subsection \<open>The partitioning engine\<close>

lemma nonSkipped_append: "nonSkipped idx (xs @ ys) = nonSkipped idx xs @ nonSkipped idx ys"
  by (induction idx xs rule: nonSkipped.induct) auto

lemma markColumns_apply:
  "markColumns ivs used i =
     (if \<exists>v. (i, v) \<in> set ivs \<and> v \<noteq> '''' then Some True else used i)"
  by (induction ivs used rule: markColumns.induct) auto

lemma markColumns_record:
  "markColumns (enumerate 0 r) used i =
     (if i < length r \<and> r ! i \<noteq> '''' then Some True else used i)"
  by (auto simp: markColumns_apply in_set_enumerate_eq)

lemma usageOf_analyzeRecord_skip:
  "nonSkipped idx [res] = [] \<Longrightarrow> analyzeRecord idx res U = U"
  by (cases res) (auto simp: analyzeRecord_def)

lemma usageOf_analyzeRecord:
  assumes "idx < length r"
  shows "usageOf (analyzeRecord idx (Inr r) U) k i \<longleftrightarrow>
           usageOf U k i \<or> (partitionKey idx r = k \<and> i < length r \<and> r ! i \<noteq> '''')"
  using assms
  by (auto simp: analyzeRecord_def usageOf_def Let_def markColumns_record split: option.splits)

lemma usageOf_analyze:
  "usageOf (analyze idx rs) k i \<longleftrightarrow>
     (\<exists>r \<in> set (nonSkipped idx rs). partitionKey idx r = k \<and> i < length r \<and> r ! i \<noteq> '''')"
proof (induction rs rule: rev_induct)
  case Nil
  then show ?case by (simp add: analyze_def usageOf_def)
next
  case (snoc x xs)
  show ?case
  proof (cases "nonSkipped idx [x] = []")
    case True
    with snoc show ?thesis
      by (simp add: analyze_def nonSkipped_append usageOf_analyzeRecord_skip)
  next
    case False
    then obtain r where x: "x = Inr r" and len: "idx < length r"
      by (cases x) (auto split: if_splits)
    with snoc usageOf_analyzeRecord [OF len] show ?thesis
      unfolding analyze_def by (auto simp: nonSkipped_append)
  qed
qed

lemma set_idxList:
  "set (idxList header used) = {i. i < length header \<and> used i = Some True}"
  by (auto simp: idxList_def split: option.splits)

lemma sorted_idxList: "sorted_wrt (<) (idxList header used)"
  unfolding idxList_def by (simp add: sorted_wrt_filter)

lemma map_fst_send: "map fst (send k r ws) = map fst ws"
  unfolding send_def by (induction ws) auto

lemma in_set_send:
  "(k, w) \<in> set (send k' r ws) \<Longrightarrow>
     \<exists>w0. (k, w0) \<in> set ws \<and> w = (if k = k' then w0\<lparr>channel := channel w0 @ [r]\<rparr> else w0)"
  unfolding send_def by (induction ws) (auto split: if_splits)

lemma routed_step:
  assumes inv: "routed header U idx xs ws" and len: "idx < length r"
  shows "routed header U idx (xs @ [r]) (routeRecord header U idx (Inr r) ws)"
proof -
  let ?k = "partitionKey idx r"
  let ?new = "(?k, mkWriter header U ?k [])"
  let ?chans = "if map_of ws ?k = None then ws @ [?new] else ws"
  have rr: "routeRecord header U idx (Inr r) ws = send ?k r ?chans"
    using len by (simp add: routeRecord_def Let_def mkWriter_def)
  from inv have d: "distinct (map fst ws)"
    and keys: "fst ` set ws = partitionKey idx ` set xs"
    and ch: "\<And>k w. (k, w) \<in> set ws \<Longrightarrow>
               w = mkWriter header U k (filter (\<lambda>r. partitionKey idx r = k) xs)"
    unfolding routed_def by auto
  have none: "map_of ws ?k = None \<longleftrightarrow> ?k \<notin> fst ` set ws"
    by (simp add: map_of_eq_None_iff)
  have d': "distinct (map fst ?chans)" using d none by auto
  have keys': "fst ` set ?chans = partitionKey idx ` set (xs @ [r])"
    using keys none by auto
  have ch': "(k, w) \<in> set ?chans \<Longrightarrow>
      w = mkWriter header U k (filter (\<lambda>r. partitionKey idx r = k) xs)" for k w
  proof (cases "(k, w) \<in> set ws")
    case True
    then show ?thesis using ch by simp
  next
    case False
    assume "(k, w) \<in> set ?chans"
    with False have eq: "k = ?k" "w = mkWriter header U ?k []" and fresh: "?k \<notin> fst ` set ws"
      using none by (auto split: if_splits)
    from fresh keys have "?k \<notin> partitionKey idx ` set xs" by simp
    then have "filter (\<lambda>r'. partitionKey idx r' = ?k) xs = []"
      unfolding filter_empty_conv by (metis imageI)
    with eq show ?thesis by simp
  qed
  show ?thesis
    unfolding routed_def rr
  proof (intro conjI)
    show "distinct (map fst (send ?k r ?chans))" using d' by (simp add: map_fst_send)
    show "fst ` set (send ?k r ?chans) = partitionKey idx ` set (xs @ [r])"
      using keys' by (metis map_fst_send set_map)
    show "\<forall>(k, w) \<in> set (send ?k r ?chans).
            w = mkWriter header U k (filter (\<lambda>r. partitionKey idx r = k) (xs @ [r]))"
    proof (clarify)
      fix k w assume "(k, w) \<in> set (send ?k r ?chans)"
      from in_set_send [OF this] obtain w0 where w0: "(k, w0) \<in> set ?chans"
        and w: "w = (if k = ?k then w0\<lparr>channel := channel w0 @ [r]\<rparr> else w0)"
        by blast
      from ch' [OF w0] w show "w = mkWriter header U k (filter (\<lambda>r. partitionKey idx r = k) (xs @ [r]))"
        by (auto simp: mkWriter_def)
    qed
  qed
qed

lemma routeRecord_skip: "nonSkipped idx [res] = [] \<Longrightarrow> routeRecord header U idx res ws = ws"
  by (cases res) (auto simp: routeRecord_def)

lemma routed_route: "routed header U idx (nonSkipped idx rs) (route header U idx rs)"
proof (induction rs rule: rev_induct)
  case Nil
  then show ?case by (simp add: route_def routed_def)
next
  case (snoc x xs)
  show ?case
  proof (cases "nonSkipped idx [x] = []")
    case True
    with snoc show ?thesis
      by (simp add: route_def nonSkipped_append routeRecord_skip)
  next
    case False
    then obtain r where x: "x = Inr r" and len: "idx < length r"
      by (cases x) (auto split: if_splits)
    from routed_step [OF snoc len] x len show ?thesis
      by (simp add: route_def nonSkipped_append)
  qed
qed

lemma indexOf_None: "indexOf c xs = None \<longleftrightarrow> c \<notin> set xs"
  by (induction xs) auto

lemma indexOf_Some: "indexOf c xs = Some j \<Longrightarrow> j < length xs \<and> xs ! j = c"
  by (induction xs arbitrary: j) (auto split: if_splits)

lemma readBack_filterRecord:
  assumes len: "length r = n"
    and cover: "\<And>i. i < n \<Longrightarrow> r ! i \<noteq> '''' \<Longrightarrow> i \<in> set indices"
  shows "readBack n indices (filterRecord indices r) = r"
proof (rule nth_equalityI)
  show "length (readBack n indices (filterRecord indices r)) = length r"
    using len by (simp add: readBack_def)
next
  fix i assume "i < length (readBack n indices (filterRecord indices r))"
  then have i: "i < n" by (simp add: readBack_def)
  show "readBack n indices (filterRecord indices r) ! i = r ! i"
  proof (cases "indexOf i indices")
    case None
    then have "i \<notin> set indices" by (simp add: indexOf_None)
    with cover [OF i] have "r ! i = ''''" by blast
    with None i show ?thesis by (simp add: readBack_def)
  next
    case (Some j)
    from indexOf_Some [OF Some] have j: "j < length indices" "indices ! j = i" by auto
    with Some i len show ?thesis by (simp add: readBack_def filterRecord_def)
  qed
qed

lemma sum_list_partition:
  assumes "distinct ks" and "f ` set xs \<subseteq> set ks"
  shows "sum_list (map (\<lambda>k. mset (filter (\<lambda>x. f x = k) xs)) ks) = mset xs"
  using assms(2)
proof (induction xs)
  case Nil
  then show ?case by (induction ks) auto
next
  case (Cons x xs)
  have one: "sum_list (map (\<lambda>k. if f x = k then {#x#} else {#}) ks) = {#x#}"
    if "distinct ks" "f x \<in> set ks" for ks
    using that
  proof (induction ks)
    case Nil
    then show ?case by simp
  next
    case (Cons a ks)
    have zero: "f x \<notin> set ks \<Longrightarrow> sum_list (map (\<lambda>k. if f x = k then {#x#} else {#}) ks) = {#}"
      for ks by (induction ks) auto
    from Cons zero show ?case by (cases "f x = a") auto
  qed
  have "sum_list (map (\<lambda>k. mset (filter (\<lambda>y. f y = k) (x # xs))) ks) =
        sum_list (map (\<lambda>k. (if f x = k then {#x#} else {#}) + mset (filter (\<lambda>y. f y = k) xs)) ks)"
    by (rule arg_cong [where f = sum_list]) auto
  also have "\<dots> = sum_list (map (\<lambda>k. if f x = k then {#x#} else {#}) ks) +
        sum_list (map (\<lambda>k. mset (filter (\<lambda>y. f y = k) xs)) ks)"
    by (simp add: sum_list_addf)
  also have "\<dots> = {#x#} + mset xs"
    using one [OF assms(1)] Cons by simp
  finally show ?case by simp
qed

lemma runWriters_snoc:
  "runWriters (ws @ [(k, w)]) = writeCSV w (runWriters ws)"
  by (simp add: runWriters_def)

lemma runWriters_distinct:
  assumes "distinct (map (\<lambda>(k, w). outputFile w) ws)" and "(k, w) \<in> set ws"
  shows "runWriters ws (outputFile w) = Some (written w)"
  using assms
proof (induction ws rule: rev_induct)
  case Nil
  then show ?case by simp
next
  case (snoc x xs)
  obtain k' w' where x: "x = (k', w')" by (cases x)
  show ?case
  proof (cases "(k, w) \<in> set xs")
    case True
    with snoc x have "outputFile w \<noteq> outputFile w'" by force
    moreover from snoc True have "runWriters xs (outputFile w) = Some (written w)" by simp
    ultimately show ?thesis by (simp add: x runWriters_snoc writeCSV_def)
  next
    case False
    with snoc x have "w = w'" by simp
    then show ?thesis by (simp add: x runWriters_snoc writeCSV_def)
  qed
qed

lemma nonSkipped_mem: "r \<in> set (nonSkipped idx rs) \<Longrightarrow> Inr r \<in> set rs \<and> idx < length r"
  by (induction idx rs rule: nonSkipped.induct) (auto split: if_splits)

lemma readAll_length: "Inr r \<in> set (readAll header rows) \<Longrightarrow> length r = length header"
  by (auto simp: readAll_def csv_Read_def split: raw_record.splits if_splits)

lemma writer_files:
  assumes "routed header U idx xs ws" and "inj_on sanitizeFilename (partitionKey idx ` set xs)"
  shows "distinct (map (\<lambda>(k, w). outputFile w) ws)"
proof -
  from assms(1) have d: "distinct (map fst ws)"
    and keys: "fst ` set ws = partitionKey idx ` set xs"
    and ch: "\<And>k w. (k, w) \<in> set ws \<Longrightarrow> outputFile w = sanitizeFilename k @ ''.csv''"
    unfolding routed_def mkWriter_def by auto
  have "map (\<lambda>(k, w). outputFile w) ws = map (\<lambda>k. sanitizeFilename k @ ''.csv'') (map fst ws)"
    using ch by (auto simp: case_prod_unfold)
  moreover have "inj_on (\<lambda>k. sanitizeFilename k @ ''.csv'') (set (map fst ws))"
    using assms(2) keys by (auto simp: inj_on_def)
  ultimately show ?thesis using d by (metis distinct_map)
qed

lemma covered_by_schema:
  assumes r: "r \<in> set (nonSkipped idx rs)" and i: "i < length header" "i < length r"
    and v: "r ! i \<noteq> ''''"
  shows "i \<in> set (sourcetypeHeaderIdx header (analyze idx rs) (partitionKey idx r))"
proof -
  from r i v have "usageOf (analyze idx rs) (partitionKey idx r) i"
    unfolding usageOf_analyze by blast
  then obtain used where "analyze idx rs (partitionKey idx r) = Some used" "used i = Some True"
    unfolding usageOf_def by blast
  with i show ?thesis by (simp add: sourcetypeHeaderIdx_def set_idxList)
qed

lemma schema_observed:
  assumes "i \<in> set (sourcetypeHeaderIdx header (analyze idx rs) k)"
  shows "i < length header \<and>
         (\<exists>r \<in> set (nonSkipped idx rs). partitionKey idx r = k \<and> i < length r \<and> r ! i \<noteq> '''')"
proof -
  from assms obtain used where u: "analyze idx rs k = Some used" "i \<in> set (idxList header used)"
    by (cases "analyze idx rs k") (auto simp: sourcetypeHeaderIdx_def)
  then have "i < length header" "usageOf (analyze idx rs) k i"
    by (auto simp: set_idxList usageOf_def)
  then show ?thesis unfolding usageOf_analyze by simp
qed

text \<open>
  Claim C1 (as amended). For every CSV input whose partition keys are sanitized to
  pairwise different file names, the multiset of the data rows found in the partition
  output files, each row read back through the recorded column indices of its
  partition, equals the multiset of the non-skipped rows of the input: routing,
  enqueuing and writing neither duplicate nor drop a row.
\<close>

theorem rows_preserved_without_collision:
  assumes col: "indexOf sourcetypeCol header = Some idx"
    and inj: "inj_on sanitizeFilename
                (partitionKey idx ` set (nonSkipped idx (readAll header rows)))"
  shows "\<exists>files. ProcessCSV (Fields header # rows) sourcetypeCol = Inr files \<and>
           recoveredRows (length header) (writers header idx rows) files =
             mset (nonSkipped idx (readAll header rows))"
proof -
  let ?rs = "readAll header rows"
  let ?U = "analyze idx ?rs"
  let ?xs = "nonSkipped idx ?rs"
  let ?ws = "writers header idx rows"
  let ?n = "length header"
  define files where "files = runWriters ?ws"
  have inv: "routed header ?U idx ?xs ?ws"
    unfolding writers_def by (rule routed_route)
  from col have run: "ProcessCSV (Fields header # rows) sourcetypeCol = Inr files"
    by (simp add: ProcessCSV_def files_def)
  note files = files_def
  have dist: "distinct (map (\<lambda>(k, w). outputFile w) ?ws)"
    by (rule writer_files [OF inv inj])
  have each: "map (readBack ?n (colIndices w)) (dataRows files (outputFile w)) =
              filter (\<lambda>r. partitionKey idx r = k) ?xs"
    if mem: "(k, w) \<in> set ?ws" for k w
  proof -
    from inv mem have w: "w = mkWriter header ?U k (filter (\<lambda>r. partitionKey idx r = k) ?xs)"
      unfolding routed_def by blast
    have data: "dataRows files (outputFile w) = map (filterRecord (colIndices w)) (channel w)"
      using runWriters_distinct [OF dist mem] by (simp add: files dataRows_def written_def)
    have rb: "readBack ?n (colIndices w) (filterRecord (colIndices w) r) = r"
      if r: "r \<in> set (channel w)" for r
    proof (rule readBack_filterRecord)
      from r w have rx: "r \<in> set ?xs" and key: "partitionKey idx r = k"
        by (auto simp: mkWriter_def)
      from nonSkipped_mem [OF rx] show len: "length r = ?n"
        using readAll_length by blast
      fix i assume "i < ?n" "r ! i \<noteq> ''''"
      with covered_by_schema [OF rx, of i header] len key w
      show "i \<in> set (colIndices w)" by (simp add: mkWriter_def)
    qed
    have "map (readBack ?n (colIndices w)) (dataRows files (outputFile w)) = channel w"
      unfolding data using rb by (simp add: map_idI)
    with w show ?thesis by (simp add: mkWriter_def)
  qed
  have "recoveredRows ?n ?ws files =
        sum_list (map (\<lambda>(k, w). mset (filter (\<lambda>r. partitionKey idx r = k) ?xs)) ?ws)"
    unfolding recoveredRows_def
  proof (rule arg_cong [where f = sum_list], rule map_cong [OF refl])
    fix x assume x: "x \<in> set ?ws"
    obtain k w where kw: "x = (k, w)" by (cases x)
    from each [of k w] x kw
    show "(case x of (k, w) \<Rightarrow>
             mset (map (readBack ?n (colIndices w)) (dataRows files (outputFile w)))) =
          (case x of (k, w) \<Rightarrow> mset (filter (\<lambda>r. partitionKey idx r = k) ?xs))"
      by (simp only: kw prod.case)
  qed
  also have "\<dots> = sum_list (map (\<lambda>k. mset (filter (\<lambda>r. partitionKey idx r = k) ?xs)) (map fst ?ws))"
    by (simp add: case_prod_unfold comp_def)
  also have "\<dots> = mset ?xs"
  proof (rule sum_list_partition)
    from inv show "distinct (map fst ?ws)" unfolding routed_def by simp
    from inv show "partitionKey idx ` set ?xs \<subseteq> set (map fst ?ws)"
      unfolding routed_def by simp
  qed
  finally have "recoveredRows ?n ?ws files = mset ?xs" .
  with run show ?thesis by blast
qed

text \<open>
  Claim C2. For every partition key \<open>k\<close> with its writer \<open>w\<close>: every data row the writer
  emits has exactly as many fields as the partition's header; so has the projection of
  any record, which holds the empty string where the record is too short; the
  partition's header is the input header at the partition's column indices, which are
  strictly increasing; and each of these indices lies in the header and was seen
  non-empty in pass 1 in a non-skipped row of key \<open>k\<close>.
\<close>

theorem partition_schema:
  assumes mem: "(k, w) \<in> set (writers header idx rows)"
  shows "(\<forall>row \<in> set (tl (written w)). length row = length (headerCols w)) \<and>
         (\<forall>record. length (filterRecord (colIndices w) record) = length (headerCols w) \<and>
            (\<forall>j < length (colIndices w). filterRecord (colIndices w) record ! j =
               (if colIndices w ! j < length record then record ! (colIndices w ! j) else [])))
         \<and>
         headerCols w = map (\<lambda>i. header ! i) (colIndices w) \<and>
         sorted_wrt (<) (colIndices w) \<and>
         (\<forall>i \<in> set (colIndices w). i < length header \<and>
            (\<exists>r \<in> set (nonSkipped idx (readAll header rows)).
               partitionKey idx r = k \<and> i < length r \<and> r ! i \<noteq> ''''))"
proof -
  let ?rs = "readAll header rows"
  let ?U = "analyze idx ?rs"
  have "routed header ?U idx (nonSkipped idx ?rs) (writers header idx rows)"
    unfolding writers_def by (rule routed_route)
  with mem obtain q where w: "w = mkWriter header ?U k q"
    unfolding routed_def by blast
  have hc: "headerCols w = map (\<lambda>i. header ! i) (colIndices w)"
    unfolding w mkWriter_def
    by (simp add: sourcetypeHeaders_def sourcetypeHeaderIdx_def headerList_def split: option.splits)
  have len: "length (filterRecord (colIndices w) rcd) = length (headerCols w) \<and>
            (\<forall>j < length (colIndices w). filterRecord (colIndices w) rcd ! j =
               (if colIndices w ! j < length rcd then rcd ! (colIndices w ! j) else []))" for rcd
    by (simp add: hc filterRecord_def)
  have sorted: "sorted_wrt (<) (colIndices w)"
    unfolding w mkWriter_def
    by (simp add: sourcetypeHeaderIdx_def sorted_idxList split: option.splits)
  have obs: "\<forall>i \<in> set (colIndices w). i < length header \<and>
            (\<exists>r \<in> set (nonSkipped idx ?rs).
               partitionKey idx r = k \<and> i < length r \<and> r ! i \<noteq> '''')"
    using schema_observed [of _ header idx ?rs k] by (simp add: w mkWriter_def)
  have rows: "\<forall>row \<in> set (tl (written w)). length row = length (headerCols w)"
    using len by (auto simp: written_def)
  from rows len hc sorted obs show ?thesis by blast
qed

lemmas split_eval =
  ProcessCSV_def writers_def readAll_def csv_Read_def analyze_def analyzeRecord_def
  partitionKey_def route_def routeRecord_def send_def sourcetypeHeaders_def
  sourcetypeHeaderIdx_def idxList_def headerList_def runWriters_def writeCSV_def written_def
  filterRecord_def sanitizeFilename_def replaceIllegal_def illegal_def trimCutset_def
  inCutset_def enumerate_eq_zip upt_rec Let_def

text \<open>
  Claim C3 (as amended). On the scenario the program writes exactly two files:
  \<^verbatim>\<open>x.csv\<close> with header \<^verbatim>\<open>time,sourcetype,a,b\<close> and 2 data rows (column \<^verbatim>\<open>a\<close> holds
  \<^verbatim>\<open>2\<close> in the second row of \<^verbatim>\<open>x\<close>, so it is kept) and \<^verbatim>\<open>y.csv\<close> with header
  \<^verbatim>\<open>time,sourcetype,a,b\<close> and 1 data row.
\<close>

theorem scenario_partitions:
  "\<exists>files. ProcessCSV (Fields scenario_header # scenario_rows) ''sourcetype'' = Inr files \<and>
     dom files = {''x.csv'', ''y.csv''} \<and>
     files ''x.csv'' =
       Some [[''time'', ''sourcetype'', ''a'', ''b''], [''1'', ''x'', '''', ''1''],
             [''2'', ''x'', ''2'', '''']] \<and>
     files ''y.csv'' = Some [[''time'', ''sourcetype'', ''a'', ''b''], [''3'', ''y'', ''3'', ''4'']]"
  by (simp add: scenario_header_def scenario_rows_def split_eval) auto

text \<open>The header of \<^verbatim>\<open>x.csv\<close> is not \<^verbatim>\<open>time,sourcetype,b\<close>, as claim C3 has it.\<close>

theorem scenario_x_header_counterexample:
  "\<not> (\<exists>files rows. ProcessCSV (Fields scenario_header # scenario_rows) ''sourcetype'' = Inr files \<and>
        files ''x.csv'' = Some ([''time'', ''sourcetype'', ''b''] # rows) \<and> length rows = 2)"
  by (simp add: scenario_header_def scenario_rows_def split_eval)

text \<open>
  Claim C1 as stated, for every input, fails where two keys share a file name: the keys
  \<^verbatim>\<open>a:b\<close> and \<^verbatim>\<open>a?b\<close> both write \<^verbatim>\<open>a_b.csv\<close>, the second writer truncates what the
  first one wrote, and the row of \<^verbatim>\<open>a:b\<close> is in no output file.
\<close>

theorem collision_counterexample:
  "\<exists>files. ProcessCSV (Fields [''k''] # collision_rows) ''k'' = Inr files \<and>
     dom files = {''a_b.csv''} \<and>
     files ''a_b.csv'' = Some [[''k''], [''a?b'']] \<and>
     nonSkipped 0 (readAll [''k''] collision_rows) = [[''a:b''], [''a?b'']] \<and>
     recoveredRows 1 (writers [''k''] 0 collision_rows) files \<noteq>
       mset (nonSkipped 0 (readAll [''k''] collision_rows))"
  by (simp add: collision_rows_def split_eval recoveredRows_def dataRows_def readBack_def)

text \<open>The scenario satisfies the hypotheses of C1 as amended.\<close>

theorem rows_preserved_witness:
  "ProcessCSV (Fields scenario_header # scenario_rows) ''sourcetype'' =
     Inr (runWriters (writers scenario_header 1 scenario_rows)) \<and>
   indexOf ''sourcetype'' scenario_header = Some 1 \<and>
   inj_on sanitizeFilename
     (partitionKey 1 ` set (nonSkipped 1 (readAll scenario_header scenario_rows))) \<and>
   recoveredRows 4 (writers scenario_header 1 scenario_rows)
       (runWriters (writers scenario_header 1 scenario_rows)) =
     {#[''1'', ''x'', '''', ''1''], [''2'', ''x'', ''2'', ''''], [''3'', ''y'', ''3'', ''4'']#}"
proof -
  have col: "indexOf ''sourcetype'' scenario_header = Some 1"
    by (simp add: scenario_header_def)
  have run: "ProcessCSV (Fields scenario_header # scenario_rows) ''sourcetype'' =
     Inr (runWriters (writers scenario_header 1 scenario_rows))"
    by (simp add: ProcessCSV_def col)
  have rows: "nonSkipped 1 (readAll scenario_header scenario_rows) =
     [[''1'', ''x'', '''', ''1''], [''2'', ''x'', ''2'', ''''], [''3'', ''y'', ''3'', ''4'']]"
    by (simp add: scenario_header_def scenario_rows_def readAll_def csv_Read_def)
  have inj: "inj_on sanitizeFilename
     (partitionKey 1 ` set (nonSkipped 1 (readAll scenario_header scenario_rows)))"
    unfolding rows
    by (simp add: partitionKey_def sanitizeFilename_def replaceIllegal_def illegal_def
        trimCutset_def inCutset_def)
  have len: "length scenario_header = 4"
    by (simp add: scenario_header_def)
  have "recoveredRows 4 (writers scenario_header 1 scenario_rows)
       (runWriters (writers scenario_header 1 scenario_rows)) =
     mset (nonSkipped 1 (readAll scenario_header scenario_rows))"
    using rows_preserved_without_collision [OF col inj] unfolding len run
    by simp
  then have "recoveredRows 4 (writers scenario_header 1 scenario_rows)
       (runWriters (writers scenario_header 1 scenario_rows)) =
     {#[''1'', ''x'', '''', ''1''], [''2'', ''x'', ''2'', ''''], [''3'', ''y'', ''3'', ''4'']#}"
    unfolding rows by simp
  with run col inj show ?thesis by blast
qed

text \<open>The writer of partition \<^verbatim>\<open>x\<close> in the scenario.\<close>

theorem partition_schema_witness:
  "(''x'', \<lparr>outputFile = ''x.csv'', headerCols = [''time'', ''sourcetype'', ''a'', ''b''],
            colIndices = [0, 1, 2, 3],
            channel = [[''1'', ''x'', '''', ''1''], [''2'', ''x'', ''2'', '''']]\<rparr>)
     \<in> set (writers scenario_header 1 scenario_rows) \<and>
   sorted_wrt (<) [0, 1, 2, 3 :: nat] \<and>
   (\<exists>r \<in> set (nonSkipped 1 (readAll scenario_header scenario_rows)).
      partitionKey 1 r = ''x'' \<and> 2 < length r \<and> r ! 2 \<noteq> '''')"
proof -
  let ?w = "\<lparr>outputFile = ''x.csv'', headerCols = [''time'', ''sourcetype'', ''a'', ''b''],
            colIndices = [0, 1, 2, 3 :: nat],
            channel = [[''1'', ''x'', '''', ''1''], [''2'', ''x'', ''2'', '''']]\<rparr>"
  have mem: "(''x'', ?w) \<in> set (writers scenario_header 1 scenario_rows)"
    by (simp add: scenario_header_def scenario_rows_def split_eval)
  from partition_schema [OF mem] mem show ?thesis by simp
qed

subsection \<open>The transformer\<close>

lemma addField_attrs:
  "Host (addField config timeIndex excludeFields rawIsJSON i fieldName v event) = Host event \<and>
   Source (addField config timeIndex excludeFields rawIsJSON i fieldName v event) = Source event \<and>
   SourceType (addField config timeIndex excludeFields rawIsJSON i fieldName v event) =
     SourceType event \<and>
   Index (addField config timeIndex excludeFields rawIsJSON i fieldName v event) = Index event"
  by (simp add: addField_def split: option.splits)

lemma processField_attrs:
  assumes "Host event = TransformerConfig.Host config"
    "Source event = TransformerConfig.Source config"
    "SourceType event = TransformerConfig.SourceType config"
    "Index event = TransformerConfig.Index config"
  shows "Host (processField config header timeIndex excludeFields rawIsJSON iv event) =
           TransformerConfig.Host config \<and>
         Source (processField config header timeIndex excludeFields rawIsJSON iv event) =
           TransformerConfig.Source config \<and>
         SourceType (processField config header timeIndex excludeFields rawIsJSON iv event) =
           TransformerConfig.SourceType config \<and>
         Index (processField config header timeIndex excludeFields rawIsJSON iv event) =
           TransformerConfig.Index config"
  using assms
  by (simp add: processField_def Let_def addField_attrs)

lemma fold_processField_attrs:
  assumes "Host event = TransformerConfig.Host config"
    "Source event = TransformerConfig.Source config"
    "SourceType event = TransformerConfig.SourceType config"
    "Index event = TransformerConfig.Index config"
  shows "Host (fold (processField config header timeIndex excludeFields rawIsJSON) ivs event) =
           TransformerConfig.Host config \<and>
         Source (fold (processField config header timeIndex excludeFields rawIsJSON) ivs event) =
           TransformerConfig.Source config \<and>
         SourceType (fold (processField config header timeIndex excludeFields rawIsJSON) ivs event) =
           TransformerConfig.SourceType config \<and>
         Index (fold (processField config header timeIndex excludeFields rawIsJSON) ivs event) =
           TransformerConfig.Index config"
  using assms
proof (induction ivs arbitrary: event)
  case Nil
  then show ?case by simp
next
  case (Cons iv ivs)
  from processField_attrs [OF Cons.prems] Cons.IH show ?case by simp
qed

text \<open>The event that transformRecord returns, as the loop over the fields leaves it.\<close>

lemma transformRecord_event:
  assumes "transformRecord L config record header headerIndices timeIndex excludeFields =
             Some (Inr event)"
  obtains e0 where
    "event =
       (fold (processField config header timeIndex excludeFields
                (rawObject L headerIndices record \<noteq> NotDecoded)) (enumerate 0 record) e0)
       \<lparr>Event :=
          Event (fold (processField config header timeIndex excludeFields
                   (rawObject L headerIndices record \<noteq> NotDecoded)) (enumerate 0 record) e0)
          ++ constantFields config\<rparr>"
    and "Host e0 = TransformerConfig.Host config" and "Source e0 = TransformerConfig.Source config"
    and "SourceType e0 = TransformerConfig.SourceType config"
    and "Index e0 = TransformerConfig.Index config"
    and "Event e0 =
           (case rawObject L headerIndices record of
              NotDecoded \<Rightarrow> Map.empty | DecodedNil \<Rightarrow> Map.empty | Decoded rawJSON \<Rightarrow> rawJSON)"
proof -
  from assms obtain tm where tm: "resolveTime L config record timeIndex = Inr tm"
    by (cases "resolveTime L config record timeIndex") (auto simp: transformRecord_def)
  let ?e0 = "\<lparr>Time = tm, Host = TransformerConfig.Host config,
              Source = TransformerConfig.Source config,
              SourceType = TransformerConfig.SourceType config,
              Index = TransformerConfig.Index config,
              Event = (case rawObject L headerIndices record of
                         NotDecoded \<Rightarrow> Map.empty
                       | DecodedNil \<Rightarrow> Map.empty
                       | Decoded rawJSON \<Rightarrow> rawJSON)\<rparr>"
  have "event =
       (fold (processField config header timeIndex excludeFields
                (rawObject L headerIndices record \<noteq> NotDecoded)) (enumerate 0 record) ?e0)
       \<lparr>Event :=
          Event (fold (processField config header timeIndex excludeFields
                   (rawObject L headerIndices record \<noteq> NotDecoded)) (enumerate 0 record) ?e0)
          ++ constantFields config\<rparr>"
    using assms tm
    by (cases "rawObject L headerIndices record")
      (simp_all add: transformRecord_def Let_def split: if_splits)
  then show thesis by (rule that) simp_all
qed

text \<open>
  Claim C5 (as amended). For every row, whatever it carries in a \<^verbatim>\<open>host\<close>,
  \<^verbatim>\<open>source\<close>, \<^verbatim>\<open>sourcetype\<close> or \<^verbatim>\<open>index\<close> column, the Host, Source, SourceType and
  Index of the produced event equal the configured values: the configured default when
  one is set, the row's value being ignored, and the empty string when none is set. The
  value of a row never becomes the attribute.
\<close>

theorem metadata_from_config:
  assumes "transformRecord L config record header headerIndices timeIndex excludeFields =
             Some (Inr event)"
  shows "Host event = TransformerConfig.Host config \<and>
         Source event = TransformerConfig.Source config \<and>
         SourceType event = TransformerConfig.SourceType config \<and>
         Index event = TransformerConfig.Index config"
proof -
  from assms obtain e0 where
    ev: "event =
       (fold (processField config header timeIndex excludeFields
                (rawObject L headerIndices record \<noteq> NotDecoded)) (enumerate 0 record) e0)
       \<lparr>Event :=
          Event (fold (processField config header timeIndex excludeFields
                   (rawObject L headerIndices record \<noteq> NotDecoded)) (enumerate 0 record) e0)
          ++ constantFields config\<rparr>"
    and e0: "Host e0 = TransformerConfig.Host config" "Source e0 = TransformerConfig.Source config"
      "SourceType e0 = TransformerConfig.SourceType config"
      "Index e0 = TransformerConfig.Index config"
    by (rule transformRecord_event)
  from fold_processField_attrs [OF e0] show ?thesis by (simp add: ev)
qed

lemma processField_raw:
  "Event (processField config header timeIndex excludeFields True iv event) = Event event"
  by (simp add: processField_def addField_def Let_def)

lemma fold_processField_raw:
  "Event (fold (processField config header timeIndex excludeFields True) ivs event) = Event event"
  by (induction ivs arbitrary: event) (simp_all add: processField_raw)

text \<open>
  Claim C4 (as amended). For every row whose \<^verbatim>\<open>_raw\<close> value is not empty and decodes as
  a JSON object, transformRecord returns, and the field mapping of the event it produces
  is that object with the configured constant fields merged over it, and nothing else:
  no column of the row enters the mapping. With no constant fields configured the
  mapping is exactly the decoded object.
\<close>

theorem raw_json_passthrough:
  assumes idx: "headerIndices ''_raw'' = Some rawIndex" "rawIndex < length record"
    and raw: "record ! rawIndex \<noteq> ''''"
      "json_Unmarshal L (record ! rawIndex) = Decoded rawJSON"
  shows "transformRecord L config record header headerIndices timeIndex excludeFields \<noteq> None \<and>
         (\<forall>event.
            transformRecord L config record header headerIndices timeIndex excludeFields =
              Some (Inr event) \<longrightarrow>
            Event event = rawJSON ++ constantFields config \<and>
            (ConstantFields config = Map.empty \<longrightarrow> Event event = rawJSON))"
proof (intro conjI allI impI)
  from idx raw have ro: "rawObject L headerIndices record = Decoded rawJSON"
    by (simp add: rawObject_def)
  then show "transformRecord L config record header headerIndices timeIndex excludeFields \<noteq> None"
    by (simp add: transformRecord_def Let_def split: sum.splits)
  fix event
  assume run: "transformRecord L config record header headerIndices timeIndex excludeFields =
                 Some (Inr event)"
  from run obtain e0 where
    ev: "event =
       (fold (processField config header timeIndex excludeFields
                (rawObject L headerIndices record \<noteq> NotDecoded)) (enumerate 0 record) e0)
       \<lparr>Event :=
          Event (fold (processField config header timeIndex excludeFields
                   (rawObject L headerIndices record \<noteq> NotDecoded)) (enumerate 0 record) e0)
          ++ constantFields config\<rparr>"
    and e0: "Event e0 =
           (case rawObject L headerIndices record of
              NotDecoded \<Rightarrow> Map.empty | DecodedNil \<Rightarrow> Map.empty | Decoded rawJSON \<Rightarrow> rawJSON)"
    by (rule transformRecord_event)
  from ev e0 ro show m: "Event event = rawJSON ++ constantFields config"
    by (simp add: fold_processField_raw)
  assume "ConstantFields config = Map.empty"
  then have "constantFields config = Map.empty"
    by (simp add: constantFields_def)
  with m show "Event event = rawJSON" by simp
qed

text \<open>
  The three outcomes of transformRecord. It returns an error if and only if
  discard-invalid is configured and the time index lies within the record and the field
  there does not parse; it panics if and only if it does not return that error, the
  \<^verbatim>\<open>_raw\<close> value decodes to the nil mapping and constant fields are configured; and it
  returns an event in every other case.
\<close>

lemma transformRecord_outcomes:
  "((\<exists>err. transformRecord L config record header headerIndices timeIndex excludeFields =
        Some (Inl err)) \<longleftrightarrow>
      (DiscardInvalid config \<and> 0 \<le> timeIndex \<and> timeIndex < int (length record) \<and>
       time_Parse L (record ! nat timeIndex) = None)) \<and>
   (transformRecord L config record header headerIndices timeIndex excludeFields = None \<longleftrightarrow>
      \<not> (DiscardInvalid config \<and> 0 \<le> timeIndex \<and> timeIndex < int (length record) \<and>
         time_Parse L (record ! nat timeIndex) = None) \<and>
      rawObject L headerIndices record = DecodedNil \<and> ConstantFields config \<noteq> Map.empty)"
  by (auto simp: transformRecord_def resolveTime_def Let_def split: option.splits sum.splits)

text \<open>
  Claim C10, at the input where the code breaks it. The record's \<^verbatim>\<open>_raw\<close> value is the
  JSON literal \<^verbatim>\<open>null\<close> and one constant field is configured; the timestamp column
  parses, so no error is due. The decoder reports no error and leaves the mapping nil,
  the record counts as raw JSON, and the store of the constant field into the nil
  mapping panics: transformRecord returns neither an event nor an error.
\<close>

theorem transformRecord_nil_mapping_panics:
  "json_Unmarshal example_lib ''null'' = DecodedNil \<and>
   time_Parse example_lib ''2024-01-01T00:00:00Z'' = Some 1704067200 \<and>
   transformRecord example_lib
     (NewDefaultTransformerConfig\<lparr>ConstantFields := [''env'' \<mapsto> ''prod'']\<rparr>)
     [''2024-01-01T00:00:00Z'', ''null''] [''_time'', ''_raw'']
     (headerIndicesOf [''_time'', ''_raw'']) 0 Map.empty = None \<and>
   TransformCSV example_lib
     (NewDefaultTransformerConfig\<lparr>ConstantFields := [''env'' \<mapsto> ''prod'']\<rparr>)
     [Fields [''_time'', ''_raw''], Fields [''2024-01-01T00:00:00Z'', ''null'']] = None"
  by (simp add: TransformCSV_def timeIndexOf_def headerIndicesOf_def excludeFieldsOf_def
      csv_Read_def transformRecord_def resolveTime_def rawObject_def
      NewDefaultTransformerConfig_def example_lib_def raw_k1_def enumerate_eq_zip upt_rec
      Let_def)

lemma dom_fold_headerIndices:
  "dom (fold (\<lambda>ih m. m(snd ih \<mapsto> fst ih)) xs m0) = dom m0 \<union> snd ` set xs"
  by (induction xs arbitrary: m0) auto

lemma dom_headerIndicesOf: "dom (headerIndicesOf header) = set header"
proof -
  have "snd ` set (enumerate 0 header) = set header"
    by (metis map_snd_enumerate set_map)
  then show ?thesis by (simp add: headerIndicesOf_def dom_fold_headerIndices)
qed

text \<open>
  Claim C6 (as amended). For every CSV whose header does not contain the configured,
  non-empty time field, and every configuration with no default timestamp and without
  discard-invalid, TransformCSV returns the error for the whole input, whatever the
  rows are: it reads none of them and returns no events.
\<close>

theorem missing_time_field_fails_fast:
  assumes "TimeField config \<noteq> ''''" and "TimeField config \<notin> set header"
    and "DefaultTimestamp config = None" and "\<not> DiscardInvalid config"
  shows "TransformCSV L config (Fields header # rows) =
           Some (Inl (ErrTimeFieldNotFound (TimeField config)))"
proof -
  from assms(2) have "headerIndicesOf header (TimeField config) = None"
    using dom_headerIndicesOf [of header] by blast
  with assms show ?thesis by (simp add: TransformCSV_def timeIndexOf_def)
qed

lemma transformRecords_plain:
  assumes "TimeOffset config = 0"
    and "transformRecords L config header headerIndices timeIndex excludeFields lineNum rows acc =
           Some (Inr events)"
    and "e \<in> set events"
  shows "e \<in> set acc \<or>
         (\<exists>record. Fields record \<in> set rows \<and>
            transformRecord L config record header headerIndices timeIndex excludeFields =
              Some (Inr e))"
  using assms(2,3)
proof (induction rows arbitrary: lineNum acc)
  case Nil
  then show ?case by simp
next
  case (Cons l rows)
  show ?case
  proof (cases "csv_Read (length header) l")
    case (Inl err)
    with Cons.prems show ?thesis by simp
  next
    case (Inr rcd)
    then have l: "l = Fields rcd"
      by (auto simp: csv_Read_def split: raw_record.splits if_splits)
    show ?thesis
    proof (cases "transformRecord L config rcd header headerIndices timeIndex excludeFields")
      case None
      with Inr Cons.prems show ?thesis by simp
    next
      case (Some res)
      show ?thesis
      proof (cases res)
        case err: (Inl err)
        with Some Inr Cons.prems Cons.IH [of "lineNum + 1" acc] show ?thesis
          by (auto split: if_splits)
      next
        case ev: (Inr event)
        with Some Inr Cons.prems Cons.IH [of "lineNum + 1" "acc @ [event]"] assms(1) l
        show ?thesis by (auto simp: offsetStage_def)
      qed
    qed
  qed
qed

text \<open>
  Claim C8. With a zero time offset the offset step of TransformCSV leaves every event
  as it is, timestamp and field mapping alike, whatever strings, nested mappings or
  sequences the mapping holds: applyTimeOffsets runs only for an offset other than
  zero. Every event TransformCSV returns is then the event transformRecord made of one
  of the rows.
\<close>

theorem zero_offset_identity:
  assumes "TimeOffset config = 0"
  shows "offsetStage L config event = event \<and>
         (\<forall>header rows events.
            TransformCSV L config (Fields header # rows) = Some (Inr events) \<longrightarrow>
            (\<forall>e \<in> set events. \<exists>record timeIndex.
               timeIndexOf config (headerIndicesOf header) = Inr timeIndex \<and>
               Fields record \<in> set rows \<and>
               transformRecord L config record header (headerIndicesOf header) timeIndex
                 (excludeFieldsOf config) = Some (Inr e)))"
proof (intro conjI allI impI ballI)
  show "offsetStage L config event = event"
    using assms by (simp add: offsetStage_def)
next
  fix header rows events e
  assume run: "TransformCSV L config (Fields header # rows) = Some (Inr events)"
    and e: "e \<in> set events"
  from run obtain timeIndex where
    ti: "timeIndexOf config (headerIndicesOf header) = Inr timeIndex" and
    "transformRecords L config header (headerIndicesOf header) timeIndex (excludeFieldsOf config)
       1 rows [] = Some (Inr events)"
    by (cases "timeIndexOf config (headerIndicesOf header)") (auto simp: TransformCSV_def)
  from transformRecords_plain [OF assms this(2) e] ti
  show "\<exists>record timeIndex.
          timeIndexOf config (headerIndicesOf header) = Inr timeIndex \<and>
          Fields record \<in> set rows \<and>
          transformRecord L config record header (headerIndicesOf header) timeIndex
            (excludeFieldsOf config) = Some (Inr e)"
    by auto
qed

lemmas transform_eval =
  TransformCSV_def timeIndexOf_def headerIndicesOf_def excludeFieldsOf_def csv_Read_def
  transformRecord_def resolveTime_def rawObject_def processField_def addField_def
  offsetStage_def NewDefaultTransformerConfig_def example_lib_def
  enumerate_eq_zip upt_rec Let_def

text \<open>Claim C4 as stated fails where constant fields are configured: the constant field
  \<^verbatim>\<open>env\<close> is merged into the mapping decoded from \<^verbatim>\<open>{"k":1}\<close>.\<close>

theorem raw_json_constant_fields_counterexample:
  "\<exists>event.
     TransformCSV example_lib
       (NewDefaultTransformerConfig\<lparr>TimeField := '''', ConstantFields := [''env'' \<mapsto> ''prod'']\<rparr>)
       [Fields [''_raw'', ''a''], Fields [raw_k1, ''1'']] = Some (Inr [event]) \<and>
     json_Unmarshal example_lib raw_k1 = Decoded [''k'' \<mapsto> JNumber 1] \<and>
     Event event ''env'' = Some (JString ''prod'') \<and>
     Event event \<noteq> [''k'' \<mapsto> JNumber 1]"
proof -
  let ?config =
    "NewDefaultTransformerConfig\<lparr>TimeField := '''', ConstantFields := [''env'' \<mapsto> ''prod'']\<rparr>"
  let ?event = "\<lparr>Time = None, Host = '''', Source = '''', SourceType = '''', Index = '''',
                 Event = [''k'' \<mapsto> JNumber 1] ++ constantFields ?config\<rparr>"
  have run: "TransformCSV example_lib ?config
       [Fields [''_raw'', ''a''], Fields [raw_k1, ''1'']] = Some (Inr [?event])"
    by (simp add: transform_eval raw_k1_def)
  have env: "Event ?event ''env'' = Some (JString ''prod'')"
    by (simp add: constantFields_def map_add_def)
  then have "Event ?event ''env'' \<noteq> [''k'' \<mapsto> JNumber 1] ''env''" by simp
  then have "Event ?event \<noteq> [''k'' \<mapsto> JNumber 1]" by metis
  with run env show ?thesis by (simp add: example_lib_def)
qed

text \<open>With no constant fields, the row holding \<^verbatim>\<open>{"k":1}\<close> yields exactly that mapping;
  the sibling column \<^verbatim>\<open>a\<close> is ignored.\<close>

theorem raw_json_passthrough_witness:
  "headerIndicesOf [''_raw'', ''a''] ''_raw'' = Some 0 \<and>
   0 < length [raw_k1, ''1''] \<and>
   [raw_k1, ''1''] ! 0 \<noteq> '''' \<and>
   json_Unmarshal example_lib ([raw_k1, ''1''] ! 0) = Decoded [''k'' \<mapsto> JNumber 1] \<and>
   (\<exists>event.
      transformRecord example_lib (NewDefaultTransformerConfig\<lparr>TimeField := ''''\<rparr>)
        [raw_k1, ''1''] [''_raw'', ''a''] (headerIndicesOf [''_raw'', ''a'']) (- 1) Map.empty =
        Some (Inr event) \<and>
      Event event = [''k'' \<mapsto> JNumber 1])"
proof -
  let ?config = "NewDefaultTransformerConfig\<lparr>TimeField := ''''\<rparr>"
  let ?event = "\<lparr>Time = None, Host = '''', Source = '''', SourceType = '''', Index = '''',
                 Event = [''k'' \<mapsto> JNumber 1] ++ constantFields ?config\<rparr>"
  have idx: "headerIndicesOf [''_raw'', ''a''] ''_raw'' = Some 0"
    by (simp add: headerIndicesOf_def enumerate_eq_zip upt_rec)
  have len: "0 < length [raw_k1, ''1'']" by simp
  have ne: "[raw_k1, ''1''] ! 0 \<noteq> ''''" by (simp add: raw_k1_def)
  have dec: "json_Unmarshal example_lib ([raw_k1, ''1''] ! 0) = Decoded [''k'' \<mapsto> JNumber 1]"
    by (simp add: example_lib_def)
  have run: "transformRecord example_lib ?config [raw_k1, ''1''] [''_raw'', ''a'']
               (headerIndicesOf [''_raw'', ''a'']) (- 1) Map.empty = Some (Inr ?event)"
    by (simp add: transform_eval raw_k1_def)
  have "ConstantFields ?config = Map.empty"
    by (simp add: NewDefaultTransformerConfig_def)
  with raw_json_passthrough
    [of "headerIndicesOf [''_raw'', ''a'']" 0 "[raw_k1, ''1'']" example_lib
       "[''k'' \<mapsto> JNumber 1]" ?config "[''_raw'', ''a'']" "- 1" Map.empty,
     OF idx len ne dec] run
  have "Event ?event = [''k'' \<mapsto> JNumber 1]" by blast
  with idx len ne dec run show ?thesis by blast
qed

text \<open>Claim C5 as stated fails where no default is configured: the event's Host stays
  empty and the row's \<^verbatim>\<open>host\<close> value is an ordinary field of the mapping.\<close>

theorem row_host_counterexample:
  "\<exists>event.
     TransformCSV example_lib NewDefaultTransformerConfig
       [Fields [''_time'', ''host''], Fields [''2024-01-01T00:00:00Z'', ''web01'']] =
       Some (Inr [event]) \<and>
     TransformerConfig.Host NewDefaultTransformerConfig = '''' \<and>
     Host event \<noteq> ''web01'' \<and>
     Event event ''host'' = Some (JString ''web01'')"
proof -
  let ?event = "\<lparr>Time = Some 1704067200, Host = '''', Source = '''', SourceType = '''',
                 Index = '''',
                 Event = [''host'' \<mapsto> JString ''web01''] ++
                   constantFields NewDefaultTransformerConfig\<rparr>"
  have run: "TransformCSV example_lib NewDefaultTransformerConfig
       [Fields [''_time'', ''host''], Fields [''2024-01-01T00:00:00Z'', ''web01'']] =
       Some (Inr [?event])"
    by (simp add: transform_eval)
  have "Event ?event ''host'' = Some (JString ''web01'')"
    by (simp add: constantFields_def map_add_def NewDefaultTransformerConfig_def)
  with run show ?thesis by (simp add: NewDefaultTransformerConfig_def)
qed

text \<open>A configured host wins over the row's \<^verbatim>\<open>host\<close> column, which is dropped.\<close>

theorem metadata_from_config_witness:
  "\<exists>event.
     transformRecord example_lib
       (NewDefaultTransformerConfig\<lparr>TimeField := '''', TransformerConfig.Host := ''collector''\<rparr>)
       [''web01''] [''host''] (headerIndicesOf [''host'']) (- 1) Map.empty = Some (Inr event) \<and>
     Host event = ''collector'' \<and> Event event ''host'' = None"
proof -
  let ?config =
    "NewDefaultTransformerConfig\<lparr>TimeField := '''', TransformerConfig.Host := ''collector''\<rparr>"
  let ?event = "\<lparr>Time = None, Host = ''collector'', Source = '''', SourceType = '''',
                 Index = '''', Event = Map.empty ++ constantFields ?config\<rparr>"
  have run: "transformRecord example_lib ?config [''web01''] [''host'']
               (headerIndicesOf [''host'']) (- 1) Map.empty = Some (Inr ?event)"
    by (simp add: transform_eval)
  have "Event ?event ''host'' = None"
    by (simp add: constantFields_def NewDefaultTransformerConfig_def)
  moreover from metadata_from_config [OF run] have "Host ?event = ''collector''"
    by (simp add: NewDefaultTransformerConfig_def)
  ultimately show ?thesis using run by blast
qed

text \<open>Claim C6 as stated fails where discard-invalid is set: the header has no
  \<^verbatim>\<open>_time\<close> column and no default timestamp is configured, yet TransformCSV goes on
  (with time index 0) and returns an event.\<close>

theorem discard_invalid_counterexample:
  "TimeField (NewDefaultTransformerConfig\<lparr>DiscardInvalid := True\<rparr>) \<noteq> '''' \<and>
   TimeField (NewDefaultTransformerConfig\<lparr>DiscardInvalid := True\<rparr>) \<notin> set [''a''] \<and>
   DefaultTimestamp (NewDefaultTransformerConfig\<lparr>DiscardInvalid := True\<rparr>) = None \<and>
   (\<exists>event.
      TransformCSV example_lib (NewDefaultTransformerConfig\<lparr>DiscardInvalid := True\<rparr>)
        [Fields [''a''], Fields [''2024-01-01T00:00:00Z'']] = Some (Inr [event]) \<and>
      Time event = Some 1704067200)"
  by (simp add: transform_eval)

text \<open>Without discard-invalid the same header fails fast, before the malformed third
  record is read.\<close>

theorem missing_time_field_witness:
  "TimeField NewDefaultTransformerConfig \<noteq> '''' \<and>
   TimeField NewDefaultTransformerConfig \<notin> set [''a''] \<and>
   DefaultTimestamp NewDefaultTransformerConfig = None \<and>
   \<not> DiscardInvalid NewDefaultTransformerConfig \<and>
   TransformCSV example_lib NewDefaultTransformerConfig
     [Fields [''a''], Fields [''2024-01-01T00:00:00Z''], Malformed] =
     Some (Inl (ErrTimeFieldNotFound ''_time''))"
proof -
  have h: "TimeField NewDefaultTransformerConfig \<noteq> ''''"
    "TimeField NewDefaultTransformerConfig \<notin> set [''a'']"
    "DefaultTimestamp NewDefaultTransformerConfig = None"
    "\<not> DiscardInvalid NewDefaultTransformerConfig"
    by (simp_all add: NewDefaultTransformerConfig_def)
  from missing_time_field_fails_fast
    [OF h, of example_lib "[Fields [''2024-01-01T00:00:00Z''], Malformed]"] h
  show ?thesis by (simp add: NewDefaultTransformerConfig_def)
qed

text \<open>An event holding timestamp strings, at the top level and nested, under the
  default configuration, whose offset is zero.\<close>

theorem zero_offset_witness:
  "TimeOffset NewDefaultTransformerConfig = 0 \<and>
   rfc3339FullRGX example_lib ''2024-01-01T00:00:00Z'' \<and>
   offsetStage example_lib NewDefaultTransformerConfig
     \<lparr>Time = Some 1704067200, Host = '''', Source = '''', SourceType = '''', Index = '''',
      Event = [''seen'' \<mapsto> JString ''2024-01-01T00:00:00Z'',
               ''nested'' \<mapsto> JObject [(''at'', JString ''2024-01-01T00:00:00Z'')]]\<rparr> =
     \<lparr>Time = Some 1704067200, Host = '''', Source = '''', SourceType = '''', Index = '''',
      Event = [''seen'' \<mapsto> JString ''2024-01-01T00:00:00Z'',
               ''nested'' \<mapsto> JObject [(''at'', JString ''2024-01-01T00:00:00Z'')]]\<rparr>"
proof -
  have z: "TimeOffset NewDefaultTransformerConfig = 0"
    by (simp add: NewDefaultTransformerConfig_def)
  from zero_offset_identity [OF z] z show ?thesis
    by (simp add: example_lib_def)
qed

subsection \<open>The publisher\<close>

lemma SendEvents_ok:
  "batch \<noteq> [] \<Longrightarrow> sink (attempts st) \<Longrightarrow>
   SendEvents sink batch st =
     (None, st\<lparr>attempts := Suc (attempts st), delivered := delivered st @ [batch]\<rparr>)"
  by (simp add: SendEvents_def)

lemma SendEvents_fail:
  "batch \<noteq> [] \<Longrightarrow> \<not> sink (attempts st) \<Longrightarrow>
   SendEvents sink batch st = (Some (ErrSend (attempts st)), st\<lparr>attempts := Suc (attempts st)\<rparr>)"
  by (simp add: SendEvents_def)

lemma retryLoop_succeeds:
  assumes ne: "batch \<noteq> []"
  shows "(\<forall>j<k. \<not> sink (attempts st + j)) \<Longrightarrow> sink (attempts st + k) \<Longrightarrow>
         retry + int k < RetryCount config \<Longrightarrow>
         \<exists>st'. retryLoop sink config batch retry sendErr st = (None, st') \<and>
               attempts st' = attempts st + k + 1 \<and>
               delivered st' = delivered st @ [batch] \<and>
               counters (progress st') = counters (progress st)"
proof (induction k arbitrary: retry sendErr st)
  case 0
  let ?st = "if retry > 0
             then st\<lparr>progress := SetStatus (progress st)
                    (''Retrying batch ('' @ showInt (retry + 1) @ ''/'' @
                     showInt (RetryCount config) @ '')'')\<rparr>
             else st"
  have a: "attempts ?st = attempts st" "delivered ?st = delivered st"
    "counters (progress ?st) = counters (progress st)"
    by (simp_all add: SetStatus_def counters_def)
  from 0 a have "sink (attempts ?st)" by simp
  from SendEvents_ok [of batch sink ?st, OF ne this] 0 a show ?case
    by (subst retryLoop.simps) (simp add: Let_def)
next
  case (Suc k)
  let ?st = "if retry > 0
             then st\<lparr>progress := SetStatus (progress st)
                    (''Retrying batch ('' @ showInt (retry + 1) @ ''/'' @
                     showInt (RetryCount config) @ '')'')\<rparr>
             else st"
  let ?st1 = "?st\<lparr>attempts := Suc (attempts ?st)\<rparr>"
  have a: "attempts ?st = attempts st" "delivered ?st = delivered st"
    "counters (progress ?st) = counters (progress st)"
    by (simp_all add: SetStatus_def counters_def)
  from Suc.prems(1) a have "\<not> sink (attempts ?st)" by (metis add.right_neutral zero_less_Suc)
  from SendEvents_fail [of batch sink ?st, OF ne this]
  have step: "retryLoop sink config batch retry sendErr st =
              retryLoop sink config batch (retry + 1) (Some (ErrSend (attempts ?st))) ?st1"
    using Suc.prems(3) by (subst retryLoop.simps) (simp add: Let_def)
  have b: "attempts ?st1 = Suc (attempts st)" "delivered ?st1 = delivered st"
    "counters (progress ?st1) = counters (progress st)"
    using a by simp_all
  have p1: "\<forall>j<k. \<not> sink (attempts ?st1 + j)"
    using Suc.prems(1) b(1) by (metis Suc_less_eq add_Suc add_Suc_right)
  have p2: "sink (attempts ?st1 + k)" using Suc.prems(2) b(1) by simp
  have p3: "retry + 1 + int k < RetryCount config" using Suc.prems(3) by simp
  from Suc.IH [OF p1 p2 p3, of "Some (ErrSend (attempts ?st))"] b show ?case
    unfolding step by auto
qed

lemma retryLoop_fails:
  assumes ne: "batch \<noteq> []"
  shows "(\<forall>j<n. \<not> sink (attempts st + j)) \<Longrightarrow> int n = RetryCount config - retry \<Longrightarrow>
         0 < n \<or> sendErr \<noteq> None \<Longrightarrow>
         \<exists>st' err. retryLoop sink config batch retry sendErr st = (Some err, st') \<and>
               attempts st' = attempts st + n \<and>
               delivered st' = delivered st \<and>
               counters (progress st') = counters (progress st)"
proof (induction n arbitrary: retry sendErr st)
  case 0
  then show ?case by (subst retryLoop.simps) auto
next
  case (Suc n)
  let ?st = "if retry > 0
             then st\<lparr>progress := SetStatus (progress st)
                    (''Retrying batch ('' @ showInt (retry + 1) @ ''/'' @
                     showInt (RetryCount config) @ '')'')\<rparr>
             else st"
  let ?st1 = "?st\<lparr>attempts := Suc (attempts ?st)\<rparr>"
  have a: "attempts ?st = attempts st" "delivered ?st = delivered st"
    "counters (progress ?st) = counters (progress st)"
    by (simp_all add: SetStatus_def counters_def)
  from Suc.prems(1) a have "\<not> sink (attempts ?st)" by (metis add.right_neutral zero_less_Suc)
  from SendEvents_fail [of batch sink ?st, OF ne this]
  have step: "retryLoop sink config batch retry sendErr st =
              retryLoop sink config batch (retry + 1) (Some (ErrSend (attempts ?st))) ?st1"
    using Suc.prems(2) by (subst retryLoop.simps) (simp add: Let_def)
  have b: "attempts ?st1 = Suc (attempts st)" "delivered ?st1 = delivered st"
    "counters (progress ?st1) = counters (progress st)"
    using a by simp_all
  have p1: "\<forall>j<n. \<not> sink (attempts ?st1 + j)"
    using Suc.prems(1) b(1) by (metis Suc_less_eq add_Suc add_Suc_right)
  have p2: "int n = RetryCount config - (retry + 1)" using Suc.prems(2) by simp
  from Suc.IH [OF p1 p2, of "Some (ErrSend (attempts ?st))"] b show ?case
    unfolding step by auto
qed

lemma sendBatch_succeeds:
  assumes ne: "batch \<noteq> []" and fails: "\<forall>j<k. \<not> sink (attempts st + j)"
    and ok: "sink (attempts st + k)" and k: "int k < RetryCount config"
  shows "\<exists>st'. sendBatch sink config base batch st = (None, st') \<and>
               attempts st' = attempts st + k + 1 \<and>
               delivered st' = delivered st @ [batch] \<and>
               PublishedEvents (progress st') = PublishedEvents (progress st) + int (length batch) \<and>
               FailedEvents (progress st') = FailedEvents (progress st)"
proof -
  from k have "0 + int k < RetryCount config" by simp
  from retryLoop_succeeds [OF ne fails ok this, of None]
  obtain st1 where r: "retryLoop sink config batch 0 None st = (None, st1)"
    and a: "attempts st1 = attempts st + k + 1" "delivered st1 = delivered st @ [batch]"
      "counters (progress st1) = counters (progress st)"
    by blast
  from a(3) have "PublishedEvents (progress st1) = PublishedEvents (progress st)"
    "FailedEvents (progress st1) = FailedEvents (progress st)"
    by (simp_all add: counters_def)
  with r a show ?thesis by (simp add: sendBatch_def UpdateProgress_def)
qed

lemma sendBatch_fails:
  assumes ne: "batch \<noteq> []" and pos: "0 < RetryCount config"
    and fails: "\<forall>j < nat (RetryCount config). \<not> sink (attempts st + j)"
  shows "\<exists>st' err. sendBatch sink config base batch st =
                 (Some (ErrFailedAfterRetries (RetryCount config) err), st') \<and>
               attempts st' = attempts st + nat (RetryCount config) \<and>
               delivered st' = delivered st \<and>
               FailedEvents (progress st') = FailedEvents (progress st) + int (length batch) \<and>
               PublishedEvents (progress st') = PublishedEvents (progress st)"
proof -
  from pos have n: "int (nat (RetryCount config)) = RetryCount config - 0"
    and p: "0 < nat (RetryCount config) \<or> (None :: publish_error option) \<noteq> None" by simp_all
  from retryLoop_fails [OF ne fails n p]
  obtain st1 err where r: "retryLoop sink config batch 0 None st = (Some err, st1)"
    and a: "attempts st1 = attempts st + nat (RetryCount config)" "delivered st1 = delivered st"
      "counters (progress st1) = counters (progress st)"
    by blast
  from a(3) have "PublishedEvents (progress st1) = PublishedEvents (progress st)"
    "FailedEvents (progress st1) = FailedEvents (progress st)"
    by (simp_all add: counters_def)
  with r a show ?thesis by (simp add: sendBatch_def UpdateProgress_def)
qed

lemma NewPublisher_positive:
  "0 < RetryCount (NewPublisher c) \<and> 0 < BatchSize (NewPublisher c)"
  by (simp add: NewPublisher_def Let_def)

lemma slice_nonempty:
  assumes "0 \<le> i" "i < int (length events)" "0 < b"
  shows "slice events i (min (i + b) (int (length events))) \<noteq> []"
  using assms by (auto simp: slice_def min_def)

text \<open>
  Claim C7. For a publisher made by NewPublisher and the batch that starts at index \<open>i\<close>
  of a file's events: if the sink fails the first \<open>k\<close> attempts and accepts attempt
  \<open>k + 1\<close>, with \<open>k + 1\<close> at most the retry count, then \<open>k + 1\<close> attempts are made, the
  batch is delivered once, no error is reported, its events are added to the published
  count and the file goes on with the next batch; if the sink fails every attempt,
  exactly retry-count attempts are made, nothing is delivered, the file's processing
  stops with the error, and the batch's events are added to the failed count and not
  to the published count.
\<close>

theorem retry_policy:
  assumes cfg: "config = NewPublisher c" and i: "0 \<le> i" "i < int (length events)"
    and batch: "batch = slice events i (min (i + BatchSize config) (int (length events)))"
  shows "((\<forall>j<k. \<not> sink (attempts st + j)) \<and> sink (attempts st + k) \<and>
            int k + 1 \<le> RetryCount config \<longrightarrow>
          (\<exists>st'. sendBatch sink config base batch st = (None, st') \<and>
             attempts st' = attempts st + k + 1 \<and>
             delivered st' = delivered st @ [batch] \<and>
             PublishedEvents (progress st') =
               PublishedEvents (progress st) + int (length batch) \<and>
             FailedEvents (progress st') = FailedEvents (progress st) \<and>
             sendBatches sink config base events i st =
               sendBatches sink config base events (i + BatchSize config) st')) \<and>
         ((\<forall>j < nat (RetryCount config). \<not> sink (attempts st + j)) \<longrightarrow>
          (\<exists>st' err.
             sendBatches sink config base events i st =
               Some (Some (ErrFailedAfterRetries (RetryCount config) err), st') \<and>
             attempts st' = attempts st + nat (RetryCount config) \<and>
             delivered st' = delivered st \<and>
             FailedEvents (progress st') = FailedEvents (progress st) + int (length batch) \<and>
             PublishedEvents (progress st') = PublishedEvents (progress st)))"
proof (intro conjI impI)
  have pos: "0 < RetryCount config" "0 < BatchSize config"
    using NewPublisher_positive [of c] cfg by simp_all
  have ne: "batch \<noteq> []"
    unfolding batch by (rule slice_nonempty [OF i pos(2)])
  have unfold: "sendBatches sink config base events i st =
      (case sendBatch sink config base batch st of
         (Some err, st) \<Rightarrow> Some (Some err, st)
       | (None, st) \<Rightarrow> sendBatches sink config base events (i + BatchSize config) st)"
    using i pos(2) by (subst sendBatches.simps) (simp add: batch min_def Let_def)
  {
    assume "(\<forall>j<k. \<not> sink (attempts st + j)) \<and> sink (attempts st + k) \<and>
            int k + 1 \<le> RetryCount config"
    then have h: "\<forall>j<k. \<not> sink (attempts st + j)" "sink (attempts st + k)"
      "int k < RetryCount config" by auto
    from sendBatch_succeeds [OF ne h, of base]
    show "\<exists>st'. sendBatch sink config base batch st = (None, st') \<and>
             attempts st' = attempts st + k + 1 \<and>
             delivered st' = delivered st @ [batch] \<and>
             PublishedEvents (progress st') =
               PublishedEvents (progress st) + int (length batch) \<and>
             FailedEvents (progress st') = FailedEvents (progress st) \<and>
             sendBatches sink config base events i st =
               sendBatches sink config base events (i + BatchSize config) st'"
      unfolding unfold by auto
  }
  {
    assume h: "\<forall>j < nat (RetryCount config). \<not> sink (attempts st + j)"
    from sendBatch_fails [OF ne pos(1) h, of base]
    show "\<exists>st' err.
             sendBatches sink config base events i st =
               Some (Some (ErrFailedAfterRetries (RetryCount config) err), st') \<and>
             attempts st' = attempts st + nat (RetryCount config) \<and>
             delivered st' = delivered st \<and>
             FailedEvents (progress st') = FailedEvents (progress st) + int (length batch) \<and>
             PublishedEvents (progress st') = PublishedEvents (progress st)"
      unfolding unfold by auto
  }
qed

text \<open>A publisher with batch size 2 and the default retry count 3: a sink that accepts
  the third attempt, and a sink that accepts nothing.\<close>

theorem retry_policy_witness:
  "RetryCount example_publisher = 3 \<and>
   (\<exists>st'. sendBatch (\<lambda>n. 2 \<le> n) example_publisher ''x.csv''
            [example_event ''a'', example_event ''b''] initial_state = (None, st') \<and>
      attempts st' = 3 \<and>
      delivered st' = [[example_event ''a'', example_event ''b'']] \<and>
      PublishedEvents (progress st') = 2 \<and> FailedEvents (progress st') = 0) \<and>
   (\<exists>st' err. sendBatches (\<lambda>n. False) example_publisher ''x.csv''
            [example_event ''a'', example_event ''b'', example_event ''c''] 0 initial_state =
              Some (Some (ErrFailedAfterRetries 3 err), st') \<and>
      attempts st' = 3 \<and> delivered st' = [] \<and>
      FailedEvents (progress st') = 2 \<and> PublishedEvents (progress st') = 0)"
proof -
  let ?events = "[example_event ''a'', example_event ''b'', example_event ''c'']"
  let ?batch = "[example_event ''a'', example_event ''b'']"
  have cfg: "example_publisher =
     NewPublisher \<lparr>Concurrency = 0, BatchSize = 2, RetryCount = 0, RetryWait = 0, DryRun = False\<rparr>"
    by (simp add: example_publisher_def)
  have rc: "RetryCount example_publisher = 3" and bs: "BatchSize example_publisher = 2"
    by (simp_all add: example_publisher_def NewPublisher_def)
  have i: "(0::int) \<le> 0" "0 < int (length ?events)" by simp_all
  have b: "?batch = slice ?events 0 (min (0 + BatchSize example_publisher) (int (length ?events)))"
    by (simp add: bs slice_def)
  have st: "attempts initial_state = 0" "delivered initial_state = []"
    "PublishedEvents (progress initial_state) = 0" "FailedEvents (progress initial_state) = 0"
    by (simp_all add: initial_state_def)
  have fails2: "\<forall>j<2. \<not> (2::nat) \<le> attempts initial_state + j"
    by (simp add: st)
  from retry_policy [OF cfg i b, of 2 "\<lambda>n. 2 \<le> n" initial_state "''x.csv''"] fails2
  have A: "\<exists>st'. sendBatch (\<lambda>n. 2 \<le> n) example_publisher ''x.csv'' ?batch initial_state =
              (None, st') \<and>
      attempts st' = 3 \<and> delivered st' = [?batch] \<and>
      PublishedEvents (progress st') = 2 \<and> FailedEvents (progress st') = 0"
    by (auto simp: rc st)
  from retry_policy [OF cfg i b, of 0 "\<lambda>n. False" initial_state "''x.csv''"]
  have B: "\<exists>st' err. sendBatches (\<lambda>n. False) example_publisher ''x.csv'' ?events 0 initial_state =
              Some (Some (ErrFailedAfterRetries 3 err), st') \<and>
      attempts st' = 3 \<and> delivered st' = [] \<and>
      FailedEvents (progress st') = 2 \<and> PublishedEvents (progress st') = 0"
    by (auto simp: rc st)
  from rc A B show ?thesis by blast
qed

end
